theory Spec2Isabelle
  imports Main "HOL-Library.Sublist"
begin
section \<open>USB Cellular Airbridge: a shallow embedding of main.py and modem_handler.py\<close>

text \<open>
  Conventions used throughout.
  \<^item> Clock readings (\<^verbatim>\<open>time.time()\<close>) and durations are integers counting milliseconds:
    \<^verbatim>\<open>time.sleep(0.05)\<close> is a sleep of 50, a timeout of 5 (seconds) is 5000.  The clock
    advances in \<^verbatim>\<open>time.sleep\<close> only.
  \<^item> Python's \<^verbatim>\<open>a in b\<close> on strings is \<^const>\<open>sublist\<close> (a contiguous occurrence).
  \<^item> Text received from the modem is ASCII, one \<^typ>\<open>char\<close> per byte.
  \<^item> A path is the list of its components below the mount point; its basename is the
    last component.
\<close>

subsection \<open>Python built-ins used by the sources\<close>

definition py_isspace :: "char \<Rightarrow> bool" where
  "py_isspace c = (c \<in> set [CHR '' '', CHR 0x09, CHR 0x0A, CHR 0x0B, CHR 0x0C, CHR 0x0D,
                              CHR 0x1C, CHR 0x1D, CHR 0x1E, CHR 0x1F])"

definition py_strip :: "string \<Rightarrow> string" where
  "py_strip s = rev (dropWhile py_isspace (rev (dropWhile py_isspace s)))"

fun py_split :: "char \<Rightarrow> string \<Rightarrow> string list" where
  "py_split sep [] = [[]]"
| "py_split sep (c # cs) =
     (if c = sep then [] # py_split sep cs
      else (case py_split sep cs of [] \<Rightarrow> [[c]] | w # ws \<Rightarrow> (c # w) # ws))"

definition is_digit :: "char \<Rightarrow> bool" where
  "is_digit c = (c \<in> set ''0123456789'')"

definition digit_value :: "char \<Rightarrow> nat" where
  "digit_value c = of_char c - 48"

text \<open>
  \<^verbatim>\<open>int(s)\<close>: surrounding whitespace, an optional sign, then decimal digits in groups
  separated by single underscores; \<^verbatim>\<open>ValueError\<close> is \<^const>\<open>None\<close>.
\<close>

definition py_int :: "string \<Rightarrow> int option" where
  "py_int s =
     (let t = py_strip s;
          negative = (t \<noteq> [] \<and> hd t = CHR ''-'');
          body = (if t \<noteq> [] \<and> (hd t = CHR ''-'' \<or> hd t = CHR ''+'') then tl t else t);
          groups = py_split CHR ''_'' body
      in if list_all (\<lambda>g. g \<noteq> [] \<and> list_all is_digit g) groups
         then (let v = int (foldl (\<lambda>a c. 10 * a + digit_value c) 0 (concat groups))
               in Some (if negative then - v else v))
         else None)"

text \<open>\<^verbatim>\<open>str(n)\<close> for a non-negative integer, as the f-strings format lengths and ports.\<close>

function py_str :: "nat \<Rightarrow> string" where
  "py_str n = (if n < 10 then [''0123456789'' ! n]
               else py_str (n div 10) @ [''0123456789'' ! (n mod 10)])"
  by pat_completeness auto
termination
  by (relation "measure id") auto

declare py_str.simps [simp del]

definition endswith :: "string \<Rightarrow> string \<Rightarrow> bool" where
  "endswith s e = (length e \<le> length s \<and> drop (length s - length e) s = e)"

definition startswith :: "string \<Rightarrow> string \<Rightarrow> bool" where
  "startswith s b = (take (length b) s = b)"

subsection \<open>The transport: \<^verbatim>\<open>self.ser\<close> and the clock\<close>

text \<open>
  What the program writes to the serial port is logged in \<open>tx\<close>, oldest first: a command
  line (written with \<^verbatim>\<open>\r\n\<close> appended) or a raw block of file data.
\<close>

datatype tx_event = Line string | Raw string

text \<open>The raw blocks among the writes, in the order written.\<close>

fun raws :: "tx_event list \<Rightarrow> string list" where
  "raws [] = []"
| "raws (Line c # es) = raws es"
| "raws (Raw d # es) = d # raws es"

text \<open>
  \<open>rx\<close> is the script of the modem's side: its \<open>k\<close>-th element is what the \<open>k\<close>-th poll of
  \<^verbatim>\<open>self.ser.in_waiting\<close> finds waiting (empty when nothing is waiting; nothing is waiting
  once the script is used up).  Each poll reads everything that waits, so bytes that
  \<^verbatim>\<open>reset_input_buffer()\<close> would discard are bytes that no poll ever sees: they are not part
  of the script and the reset leaves the script as it is.
\<close>

record modem_io =
  now :: int
  rx :: "string list"
  tx :: "tx_event list"

definition sleep :: "nat \<Rightarrow> modem_io \<Rightarrow> modem_io" where
  "sleep d io = io\<lparr>now := now io + int d\<rparr>"

definition ser_write :: "tx_event \<Rightarrow> modem_io \<Rightarrow> modem_io" where
  "ser_write e io = io\<lparr>tx := tx io @ [e]\<rparr>"

definition waiting :: "modem_io \<Rightarrow> string" where
  "waiting io = (case rx io of [] \<Rightarrow> [] | d # ds \<Rightarrow> d)"

definition polled :: "modem_io \<Rightarrow> modem_io" where
  "polled io = io\<lparr>rx := tl (rx io)\<rparr>"

lemma now_sleep [simp]: "now (sleep d io) = now io + int d"
  by (simp add: sleep_def)

lemma now_polled [simp]: "now (polled io) = now io"
  by (simp add: polled_def)

lemma now_ser_write [simp]: "now (ser_write e io) = now io"
  by (simp add: ser_write_def)

subsection \<open>\<^verbatim>\<open>SIM7000GHandler.send_at\<close> and \<^verbatim>\<open>wait_for_response\<close>\<close>

text \<open>The \<^verbatim>\<open>while time.time() - start_time < timeout\<close> loop of \<^verbatim>\<open>send_at\<close>.\<close>

function send_at_loop ::
  "string \<Rightarrow> int \<Rightarrow> int \<Rightarrow> string \<Rightarrow> modem_io \<Rightarrow> (bool \<times> string) \<times> modem_io" where
  "send_at_loop expected timeout start_time response io =
     (if now io - start_time < timeout then
        (if waiting io \<noteq> [] then
           (let response' = response @ waiting io; io' = polled io in
            if sublist expected response' \<or> sublist ''ERROR'' response'
            then ((sublist expected response', response'), io')
            else send_at_loop expected timeout start_time response' (sleep 50 io'))
         else send_at_loop expected timeout start_time response (sleep 50 (polled io)))
      else ((False, response), io))"
  by pat_completeness auto
termination
  by (relation "measure (\<lambda>(expected, timeout, start_time, response, io).
                  nat (timeout - (now io - start_time)))") auto

declare send_at_loop.simps [simp del]

definition send_at :: "string \<Rightarrow> string \<Rightarrow> int \<Rightarrow> modem_io \<Rightarrow> (bool \<times> string) \<times> modem_io" where
  "send_at command expected timeout io =
     (let io1 = ser_write (Line command) io
      in send_at_loop expected timeout (now io1) [] io1)"

text \<open>The loop of \<^verbatim>\<open>wait_for_response\<close>: no write, a poll every 100 ms.\<close>

function wait_loop ::
  "string \<Rightarrow> int \<Rightarrow> int \<Rightarrow> string \<Rightarrow> modem_io \<Rightarrow> (bool \<times> string) \<times> modem_io" where
  "wait_loop expected timeout start response io =
     (if now io - start < timeout then
        (if waiting io \<noteq> [] then
           (let response' = response @ waiting io; io' = polled io in
            if sublist expected response' then ((True, response'), io')
            else if sublist ''ERROR'' response' then ((False, response'), io')
            else wait_loop expected timeout start response' (sleep 100 io'))
         else wait_loop expected timeout start response (sleep 100 (polled io)))
      else ((False, response), io))"
  by pat_completeness auto
termination
  by (relation "measure (\<lambda>(expected, timeout, start, response, io).
                  nat (timeout - (now io - start)))") auto

declare wait_loop.simps [simp del]

definition wait_for_response :: "string \<Rightarrow> int \<Rightarrow> modem_io \<Rightarrow> (bool \<times> string) \<times> modem_io" where
  "wait_for_response expected timeout io = wait_loop expected timeout (now io) [] io"

text \<open>
  Auxiliary, for stating what the loops do when the modem never answers: they poll until
  the timeout has elapsed, which takes the timeout rounded up to a whole number of polling
  intervals.
\<close>

definition round_up :: "int \<Rightarrow> int \<Rightarrow> int" where
  "round_up interval d = (if d \<le> 0 then 0 else ((d - 1) div interval + 1) * interval)"

subsection \<open>\<^verbatim>\<open>setup_network\<close>, \<^verbatim>\<open>check_signal\<close>, \<^verbatim>\<open>close_bearer\<close>\<close>


text \<open>\<^verbatim>\<open>for i in range(10)\<close>: the argument counts the iterations that are left.\<close>

fun wait_registration :: "nat \<Rightarrow> modem_io \<Rightarrow> modem_io" where
  "wait_registration 0 io = io"
| "wait_registration (Suc n) io =
     (let ((ok, resp), io1) = send_at ''AT+CREG?'' ''OK'' 2000 io
      in if sublist '',1'' resp \<or> sublist '',5'' resp then io1
         else wait_registration n (sleep 2000 io1))"


definition check_signal :: "modem_io \<Rightarrow> (bool \<times> int) \<times> modem_io" where
  "check_signal io =
     (let ((ok, resp), io1) = send_at ''AT+CSQ'' ''OK'' 2000 io
      in if ok \<and> sublist ''+CSQ:'' resp then
           (case py_split CHR '':'' resp of
              _ # b # _ \<Rightarrow>
                (case py_int (hd (py_split CHR '','' b)) of
                   Some rssi \<Rightarrow> ((True, rssi), io1)
                 | None \<Rightarrow> ((False, 99), io1))
            | _ \<Rightarrow> ((False, 99), io1))
         else ((False, 99), io1))"

definition close_bearer :: "modem_io \<Rightarrow> modem_io" where
  "close_bearer io = snd (send_at ''AT+SAPBR=0,1'' ''OK'' 5000 io)"

subsection \<open>The progress file\<close>

type_synonym path = "string list"

text \<open>
  The content of \<^verbatim>\<open>/tmp/airbridge_upload_progress.json\<close>; the state of the file is a
  \<^typ>\<open>'a option\<close>, \<^const>\<open>None\<close> when the file does not exist.  A file that exists is one
  that \<^verbatim>\<open>save_progress\<close> wrote, and writing it succeeds.
\<close>

record progress =
  p_filepath :: path
  p_bytes_sent :: nat
  p_timestamp :: int

definition save_progress :: "path \<Rightarrow> nat \<Rightarrow> modem_io \<Rightarrow> progress option \<Rightarrow> progress option" where
  "save_progress filepath bytes_sent io pf =
     Some \<lparr>p_filepath = filepath, p_bytes_sent = bytes_sent, p_timestamp = now io\<rparr>"

definition load_progress :: "path \<Rightarrow> modem_io \<Rightarrow> progress option \<Rightarrow> nat" where
  "load_progress filepath io pf =
     (case pf of
        None \<Rightarrow> 0
      | Some p \<Rightarrow>
          if p_filepath p = filepath \<and> now io - p_timestamp p < 3600000
          then p_bytes_sent p else 0)"

definition clear_progress :: "progress option \<Rightarrow> progress option" where
  "clear_progress pf = None"

subsection \<open>\<^verbatim>\<open>upload_ftp\<close>\<close>

record ftp_settings =
  server :: string
  port :: nat
  username :: string
  password :: string
  remote_path :: string

datatype upload_msg =
    File_not_found path
  | Failed_to_open_FTP_session string
  | Failed_at_byte nat nat
  | Upload_successful
  | Upload_may_have_failed string

definition basename :: "path \<Rightarrow> string" where
  "basename p = (if p = [] then [] else last p)"

text \<open>\<^verbatim>\<open>f.read(n)\<close> at position \<open>pos\<close>; a negative \<open>n\<close> reads to the end of the file.\<close>

definition file_read :: "int \<Rightarrow> nat \<Rightarrow> string \<Rightarrow> string" where
  "file_read n pos data = (if n < 0 then drop pos data else take (nat n) (drop pos data))"

text \<open>The line that announces a chunk: \<^verbatim>\<open>AT+FTPPUT=2,<chunk_len>\<close>.\<close>

definition announce :: "string \<Rightarrow> tx_event" where
  "announce chunk = Line (''AT+FTPPUT=2,'' @ py_str (length chunk))"

text \<open>
  The retry loop \<^verbatim>\<open>for attempt in range(max_retries)\<close> for one chunk; the result is
  \<^verbatim>\<open>chunk_sent\<close>.
\<close>

function chunk_attempts :: "nat \<Rightarrow> nat \<Rightarrow> string \<Rightarrow> nat \<Rightarrow> modem_io \<Rightarrow> bool \<times> modem_io" where
  "chunk_attempts max_retries retry_delay chunk attempt io =
     (if attempt < max_retries then
        (let io1 = ser_write (announce chunk) io;
             ((ok, resp), io2) = wait_for_response ''+FTPPUT: 2,'' 15000 io1
         in if \<not> ok then
              chunk_attempts max_retries retry_delay chunk (attempt + 1)
                (if attempt < max_retries - 1 then sleep retry_delay io2 else io2)
            else
              (let io3 = ser_write (Raw chunk) io2;
                   ((ok, resp), io4) = wait_for_response ''OK'' 15000 io3
               in if ok then (True, io4)
                  else chunk_attempts max_retries retry_delay chunk (attempt + 1)
                         (if attempt < max_retries - 1 then sleep retry_delay io4 else io4)))
      else (False, io))"
  by pat_completeness auto
termination
  by (relation "measure (\<lambda>(max_retries, retry_delay, chunk, attempt, io).
                  max_retries - attempt)") auto

declare chunk_attempts.simps [simp del]

record upload_job =
  job_filepath :: path
  job_data :: string
  job_max_chunk :: int
  job_max_retries :: nat
  job_retry_delay :: nat

text \<open>
  The loop \<^verbatim>\<open>while bytes_sent < filesize\<close>.  \<^const>\<open>Inl\<close> is the \<^verbatim>\<open>return\<close> inside the loop
  (a chunk that was not sent), \<^const>\<open>Inr\<close> the end of the loop; both carry \<^verbatim>\<open>bytes_sent\<close>.
\<close>

function send_chunks ::
  "upload_job \<Rightarrow> nat \<Rightarrow> nat \<Rightarrow> int \<Rightarrow> modem_io \<Rightarrow> progress option
     \<Rightarrow> (nat + nat) \<times> modem_io \<times> progress option" where
  "send_chunks j pos bytes_sent last_signal_check io pf =
     (if bytes_sent < length (job_data j) then
        (let due = (now io - last_signal_check > 30000);
             io1 = (if due then snd (check_signal io) else io);
             last_signal_check' = (if due then now io1 else last_signal_check);
             chunk = file_read (job_max_chunk j) pos (job_data j)
         in if chunk = [] then (Inr bytes_sent, io1, pf)
            else
              (let (chunk_sent, io2) =
                     chunk_attempts (job_max_retries j) (job_retry_delay j) chunk 0 io1
               in if \<not> chunk_sent
                  then (Inl bytes_sent, io2, save_progress (job_filepath j) bytes_sent io2 pf)
                  else
                    (let bytes_sent' = bytes_sent + length chunk;
                         pf' = (if int (bytes_sent' mod (500 * 1024)) < job_max_chunk j
                                then save_progress (job_filepath j) bytes_sent' io2 pf
                                else pf)
                     in send_chunks j (pos + length chunk) bytes_sent' last_signal_check' io2 pf')))
      else (Inr bytes_sent, io, pf))"
  by pat_completeness auto
termination
  by (relation "measure (\<lambda>(j, pos, bytes_sent, lsc, io, pf).
                  length (job_data j) - bytes_sent)")
    (auto simp flip: length_greater_0_conv)

declare send_chunks.simps [simp del]

definition ftp_config_commands :: "ftp_settings \<Rightarrow> string \<Rightarrow> bool \<Rightarrow> string list" where
  \<open>ftp_config_commands ftp filename use_append =
     [''AT+FTPCID=1'',
      ''AT+FTPSERV="'' @ server ftp @ ''"'',
      ''AT+FTPPORT='' @ py_str (port ftp),
      ''AT+FTPMODE=1'',
      ''AT+FTPUN="'' @ username ftp @ ''"'',
      ''AT+FTPPW="'' @ password ftp @ ''"'',
      ''AT+FTPPUTNAME="'' @ filename @ ''"'',
      ''AT+FTPPUTPATH="'' @ remote_path ftp @ ''"'',
      ''AT+FTPTYPE="I"'',
      (if use_append then ''AT+FTPPUTOPT="APPE"'' else ''AT+FTPPUTOPT="STOR"'')]\<close>

text \<open>A run of \<^verbatim>\<open>self.send_at(c)\<close> calls whose results are dropped.\<close>

definition send_all :: "string list \<Rightarrow> modem_io \<Rightarrow> modem_io" where
  "send_all commands io = foldl (\<lambda>io c. snd (send_at c ''OK'' 5000 io)) io commands"

text \<open>
  The first phase of \<^verbatim>\<open>upload_ftp\<close> (lines 164-189): the configuration commands, then
  \<^verbatim>\<open>AT+FTPPUT=1\<close> and the wait for the ready indication.
\<close>

definition open_session ::
  "ftp_settings \<Rightarrow> string \<Rightarrow> bool \<Rightarrow> modem_io \<Rightarrow> (bool \<times> string) \<times> modem_io" where
  "open_session ftp filename use_append io =
     (let io1 = send_all (ftp_config_commands ftp filename use_append) io;
          io2 = ser_write (Line ''AT+FTPPUT=1'') io1
      in wait_for_response ''+FTPPUT: 1,1'' 60000 io2)"

text \<open>
  The chunk size the upload works with (lines 192-196): the number after the last comma of
  the ready indication, capped by \<^verbatim>\<open>self.chunk_size\<close>, or 1000 when that is no number.
\<close>

definition working_chunk_size :: "int \<Rightarrow> string \<Rightarrow> int" where
  "working_chunk_size chunk_size resp =
     (case py_int (last (py_split CHR '','' resp)) of
        Some n \<Rightarrow> min n chunk_size
      | None \<Rightarrow> 1000)"

text \<open>
  The last phase (lines 266-271): the zero-length announcement and the wait for the final
  status.
\<close>

definition close_session :: "modem_io \<Rightarrow> (bool \<times> string) \<times> modem_io" where
  "close_session io =
     (let io1 = sleep 500 io;
          io2 = snd (send_at ''AT+FTPPUT=2,0'' ''OK'' 5000 io1)
      in wait_for_response ''+FTPPUT: 1,0'' 30000 io2)"

text \<open>
  Where the upload starts (lines 153-160): the offset \<^verbatim>\<open>resume_from\<close> and the flag
  \<^verbatim>\<open>use_append\<close>.
\<close>

definition resume_point :: "path \<Rightarrow> nat \<Rightarrow> modem_io \<Rightarrow> progress option \<Rightarrow> nat \<times> bool" where
  "resume_point filepath filesize io pf =
     (let resume_from = load_progress filepath io pf
      in if resume_from > 0 \<and> resume_from < filesize then (resume_from, True)
         else (0, False))"

text \<open>
  \<open>file\<close> is the content of the file at \<open>filepath\<close>, \<^const>\<open>None\<close> when
  \<^verbatim>\<open>os.path.exists(filepath)\<close> is false; \<open>chunk_size\<close> is \<^verbatim>\<open>self.chunk_size\<close>.
\<close>

definition upload_ftp ::
  "int \<Rightarrow> ftp_settings \<Rightarrow> path \<Rightarrow> string option \<Rightarrow> nat \<Rightarrow> nat \<Rightarrow> modem_io \<Rightarrow> progress option
     \<Rightarrow> (bool \<times> upload_msg) \<times> modem_io \<times> progress option" where
  "upload_ftp chunk_size ftp filepath file max_retries retry_delay io pf =
     (case file of
        None \<Rightarrow> ((False, File_not_found filepath), io, pf)
      | Some data \<Rightarrow>
          (let filename = basename filepath;
               filesize = length data;
               (resume_from, use_append) = resume_point filepath filesize io pf;
               ((ok, resp), io3) = open_session ftp filename use_append io
           in if \<not> ok then ((False, Failed_to_open_FTP_session resp), io3, pf)
              else
                (let max_chunk = working_chunk_size chunk_size resp;
                     j = \<lparr>job_filepath = filepath, job_data = data, job_max_chunk = max_chunk,
                          job_max_retries = max_retries, job_retry_delay = retry_delay\<rparr>;
                     pos = (if resume_from > 0 then resume_from else 0)
                 in case send_chunks j pos resume_from (now io3) io3 pf of
                      (Inl failed_at, io4, pf4) \<Rightarrow>
                        ((False, Failed_at_byte failed_at max_retries), io4, pf4)
                    | (Inr bytes_sent, io4, pf4) \<Rightarrow>
                        (let ((ok, resp), io7) = close_session io4
                         in if ok then ((True, Upload_successful), io7, clear_progress pf4)
                            else ((False, Upload_may_have_failed resp), io7,
                                  save_progress filepath bytes_sent io7 pf4)))))"

subsection \<open>The monitor loop of \<^verbatim>\<open>main()\<close> (main.py, lines 398-459)\<close>

text \<open>
  The four local variables the loop keeps between polls.  \<^verbatim>\<open>last_write_time\<close> is
  \<^verbatim>\<open>None\<close> while no write has been seen in this session.
\<close>

record monitor_state =
  baseline_sectors :: int
  last_seen_sectors :: int
  last_write_time :: "int option"
  host_was_connected :: bool

text \<open>
  What one iteration of the loop reads from its environment: the controller state, the
  write-sector counter, the clock at line 427 (when a write is recorded), the clock at
  line 431 (when the quiet time is computed) and the write-sector counter read at line 441
  after a harvest.
\<close>

record poll_reading =
  udc_state :: string
  current_sectors :: int
  write_clock :: int
  quiet_clock :: int
  sectors_after_harvest :: int

text \<open>
  One iteration of the \<^verbatim>\<open>while True\<close> body.  The first component of the result tells
  whether the iteration called \<^verbatim>\<open>harvest_and_upload()\<close>; the second is the value of the
  loop variables when the iteration reaches \<^verbatim>\<open>time.sleep(cfg['poll_interval'])\<close>.
\<close>

definition monitor_poll :: "int \<Rightarrow> poll_reading \<Rightarrow> monitor_state \<Rightarrow> bool \<times> monitor_state" where
  "monitor_poll quiet_window r s =
     (if udc_state r = ''configured'' then
        (let s1 = (if \<not> host_was_connected s
                   then s\<lparr>host_was_connected := True,
                          baseline_sectors := current_sectors r,
                          last_seen_sectors := current_sectors r\<rparr>
                   else s);
             s2 = (if current_sectors r > last_seen_sectors s1
                   then s1\<lparr>last_seen_sectors := current_sectors r,
                           last_write_time := Some (write_clock r)\<rparr>
                   else s1)
         in (case last_write_time s2 of
               None \<Rightarrow> (False, s2)
             | Some lw \<Rightarrow>
                 if quiet_clock r - lw \<ge> quiet_window
                 then (True, s2\<lparr>baseline_sectors := sectors_after_harvest r,
                                last_seen_sectors := sectors_after_harvest r,
                                last_write_time := None,
                                host_was_connected := False\<rparr>)
                 else (False, s2)))
      else
        (if host_was_connected s
         then (last_write_time s \<noteq> None,
               s\<lparr>last_write_time := None, host_was_connected := False\<rparr>)
         else (False, s\<lparr>host_was_connected := False\<rparr>)))"

text \<open>The loop over a finite sequence of polls: which polls harvested, and the final variables.\<close>

fun monitor_run :: "int \<Rightarrow> poll_reading list \<Rightarrow> monitor_state \<Rightarrow> bool list \<times> monitor_state" where
  "monitor_run quiet_window [] s = ([], s)"
| "monitor_run quiet_window (r # rs) s =
     (let (h, s') = monitor_poll quiet_window r s;
          (hs, s'') = monitor_run quiet_window rs s'
      in (h # hs, s''))"

section \<open>Properties\<close>

subsection \<open>Command transactions\<close>

text \<open>What one call of either polling loop guarantees, for any accumulated response so far.\<close>

lemma send_at_loop_spec:
  assumes "send_at_loop e t st r io = ((m, resp), io')"
    and "r = [] \<or> (\<not> sublist e r \<and> \<not> sublist ''ERROR'' r)"
    and "st \<le> now io" and "now io - st < max t 0 + 50"
  shows "(m \<longleftrightarrow> resp \<noteq> [] \<and> sublist e resp)
       \<and> (m \<or> sublist ''ERROR'' resp \<longrightarrow> now io' - st < t)
       \<and> (\<not> m \<and> \<not> sublist ''ERROR'' resp \<longrightarrow> t \<le> now io' - st)
       \<and> now io \<le> now io' \<and> now io' - st < max t 0 + 50"
  using assms
proof (induction e t st r io arbitrary: m resp io' rule: send_at_loop.induct)
  case (1 expected timeout start_time response io)
  show ?case
  proof (cases "now io - start_time < timeout")
    case False
    with "1.prems" show ?thesis
      by (subst (asm) send_at_loop.simps) auto
  next
    case True
    note inloop = True
    show ?thesis
    proof (cases "waiting io \<noteq> []")
      case False
      with inloop "1.prems"(1)
      have run: "send_at_loop expected timeout start_time response (sleep 50 (polled io))
                   = ((m, resp), io')"
        by (subst (asm) send_at_loop.simps) simp
      have "(m \<longleftrightarrow> resp \<noteq> [] \<and> sublist expected resp)
       \<and> (m \<or> sublist ''ERROR'' resp \<longrightarrow> now io' - start_time < timeout)
       \<and> (\<not> m \<and> \<not> sublist ''ERROR'' resp \<longrightarrow> timeout \<le> now io' - start_time)
       \<and> now (sleep 50 (polled io)) \<le> now io' \<and> now io' - start_time < max timeout 0 + 50"
        using inloop False "1.prems"(2,3,4)
        by (intro "1.IH"(2) run) auto
      then show ?thesis by auto
    next
      case True
      note data = True
      define response' where "response' = response @ waiting io"
      show ?thesis
      proof (cases "sublist expected response' \<or> sublist ''ERROR'' response'")
        case True
        with inloop data "1.prems"(1)
        have "m = sublist expected response'" "resp = response'" "io' = polled io"
          by (subst (asm) send_at_loop.simps; simp add: response'_def Let_def)+
        with True inloop data "1.prems"(2,3,4) show ?thesis
          by (auto simp: response'_def)
      next
        case False
        with inloop data "1.prems"(1)
        have run: "send_at_loop expected timeout start_time response' (sleep 50 (polled io))
                   = ((m, resp), io')"
          by (subst (asm) send_at_loop.simps) (simp add: response'_def Let_def)
        have "(m \<longleftrightarrow> resp \<noteq> [] \<and> sublist expected resp)
         \<and> (m \<or> sublist ''ERROR'' resp \<longrightarrow> now io' - start_time < timeout)
         \<and> (\<not> m \<and> \<not> sublist ''ERROR'' resp \<longrightarrow> timeout \<le> now io' - start_time)
         \<and> now (sleep 50 (polled io)) \<le> now io' \<and> now io' - start_time < max timeout 0 + 50"
          using inloop data False "1.prems"(2,3,4)
          by (intro "1.IH"(1)[OF inloop data response'_def refl _ run]) (auto simp: response'_def)
        then show ?thesis by auto
      qed
    qed
  qed
qed


lemma wait_loop_spec:
  assumes "wait_loop e t st r io = ((m, resp), io')"
    and "r = [] \<or> (\<not> sublist e r \<and> \<not> sublist ''ERROR'' r)"
    and "st \<le> now io" and "now io - st < max t 0 + 100"
  shows "(m \<longleftrightarrow> resp \<noteq> [] \<and> sublist e resp)
       \<and> (m \<or> sublist ''ERROR'' resp \<longrightarrow> now io' - st < t)
       \<and> (\<not> m \<and> \<not> sublist ''ERROR'' resp \<longrightarrow> t \<le> now io' - st)
       \<and> now io \<le> now io' \<and> now io' - st < max t 0 + 100"
  using assms
proof (induction e t st r io arbitrary: m resp io' rule: wait_loop.induct)
  case (1 expected timeout start response io)
  show ?case
  proof (cases "now io - start < timeout")
    case False
    with "1.prems" show ?thesis
      by (subst (asm) wait_loop.simps) auto
  next
    case True
    note inloop = True
    show ?thesis
    proof (cases "waiting io \<noteq> []")
      case False
      with inloop "1.prems"(1)
      have run: "wait_loop expected timeout start response (sleep 100 (polled io))
                   = ((m, resp), io')"
        by (subst (asm) wait_loop.simps) simp
      have "(m \<longleftrightarrow> resp \<noteq> [] \<and> sublist expected resp)
       \<and> (m \<or> sublist ''ERROR'' resp \<longrightarrow> now io' - start < timeout)
       \<and> (\<not> m \<and> \<not> sublist ''ERROR'' resp \<longrightarrow> timeout \<le> now io' - start)
       \<and> now (sleep 100 (polled io)) \<le> now io' \<and> now io' - start < max timeout 0 + 100"
        using inloop False "1.prems"(2,3,4)
        by (intro "1.IH"(2) run) auto
      then show ?thesis by auto
    next
      case True
      note data = True
      define response' where "response' = response @ waiting io"
      show ?thesis
      proof (cases "sublist expected response' \<or> sublist ''ERROR'' response'")
        case True
        with inloop data "1.prems"(1)
        have "m = sublist expected response'" "resp = response'" "io' = polled io"
          by (subst (asm) wait_loop.simps; auto simp add: response'_def Let_def split: if_splits)+
        with True inloop data "1.prems"(2,3,4) show ?thesis
          by (auto simp: response'_def)
      next
        case False
        with inloop data "1.prems"(1)
        have run: "wait_loop expected timeout start response' (sleep 100 (polled io))
                   = ((m, resp), io')"
          by (subst (asm) wait_loop.simps) (simp add: response'_def Let_def)
        have "(m \<longleftrightarrow> resp \<noteq> [] \<and> sublist expected resp)
         \<and> (m \<or> sublist ''ERROR'' resp \<longrightarrow> now io' - start < timeout)
         \<and> (\<not> m \<and> \<not> sublist ''ERROR'' resp \<longrightarrow> timeout \<le> now io' - start)
         \<and> now (sleep 100 (polled io)) \<le> now io' \<and> now io' - start < max timeout 0 + 100"
          using inloop data False "1.prems"(2,3,4)
          by (intro "1.IH"(1)[OF inloop data response'_def refl _ _ run]) (auto simp: response'_def)
        then show ?thesis by auto
      qed
    qed
  qed
qed

lemma tx_sleep [simp]: "tx (sleep d io) = tx io"
  by (simp add: sleep_def)

lemma tx_polled [simp]: "tx (polled io) = tx io"
  by (simp add: polled_def)

lemma tx_send_at_loop: "tx (snd (send_at_loop e t st r io)) = tx io"
proof (induction e t st r io rule: send_at_loop.induct)
  case (1 expected timeout start_time response io)
  show ?case
    by (subst send_at_loop.simps) (auto simp: Let_def 1)
qed

lemma tx_wait_loop: "tx (snd (wait_loop e t st r io)) = tx io"
proof (induction e t st r io rule: wait_loop.induct)
  case (1 expected timeout start response io)
  show ?case
    by (subst wait_loop.simps) (auto simp: Let_def 1)
qed

lemma tx_send_at [simp]: "tx (snd (send_at c e t io)) = tx io @ [Line c]"
  by (simp add: send_at_def Let_def tx_send_at_loop ser_write_def)

lemma tx_wait_for_response [simp]: "tx (snd (wait_for_response e t io)) = tx io"
  by (simp add: wait_for_response_def tx_wait_loop)

lemma now_send_at: "now io \<le> now (snd (send_at c e t io))"
  using send_at_loop_spec [of e t "now io" "[]" "ser_write (Line c) io"]
  by (cases "send_at c e t io") (auto simp: send_at_def Let_def)

lemma now_wait_for_response: "now io \<le> now (snd (wait_for_response e t io))"
  using wait_loop_spec [of e t "now io" "[]" io]
  by (cases "wait_for_response e t io") (auto simp: wait_for_response_def)


lemma wait_for_response_matched:
  "e \<noteq> [] \<Longrightarrow> fst (fst (wait_for_response e t io)) = sublist e (snd (fst (wait_for_response e t io)))"
  using wait_loop_spec [of e t "now io" "[]" io]
  by (cases "wait_for_response e t io") (auto simp: wait_for_response_def)

lemma waiting_silent [simp]: "rx io = [] \<Longrightarrow> waiting io = []"
  by (simp add: waiting_def)

lemma polled_silent [simp]: "rx io = [] \<Longrightarrow> polled io = io"
  by (simp add: polled_def)

lemma rx_sleep [simp]: "rx (sleep d io) = rx io"
  by (simp add: sleep_def)

lemma rx_ser_write [simp]: "rx (ser_write e io) = rx io"
  by (simp add: ser_write_def)

lemma round_up_step:
  assumes "0 < d" and "0 < i"
  shows "round_up i d = i + round_up i (d - i)"
proof (cases "d \<le> i")
  case True
  with assms have "(d - 1) div i = 0" by simp
  with True assms show ?thesis by (simp add: round_up_def)
next
  case False
  have "(d - 1) div i = (d - i - 1 + i) div i" by simp
  also have "\<dots> = (d - i - 1) div i + 1"
    using assms by (subst div_add_self2) auto
  finally show ?thesis
    using False assms by (simp add: round_up_def algebra_simps)
qed

lemma send_at_loop_silent:
  "rx io = [] \<Longrightarrow>
   send_at_loop e t st r io = ((False, r), io\<lparr>now := now io + round_up 50 (t - (now io - st))\<rparr>)"
proof (induction e t st r io rule: send_at_loop.induct)
  case (1 expected timeout start_time response io)
  show ?case
  proof (cases "now io - start_time < timeout")
    case False
    then show ?thesis
      by (subst send_at_loop.simps) (simp add: round_up_def)
  next
    case True
    then have "send_at_loop expected timeout start_time response io =
               send_at_loop expected timeout start_time response (sleep 50 io)"
      using "1.prems" by (subst send_at_loop.simps) simp
    also have "\<dots> = ((False, response),
        (sleep 50 io)\<lparr>now := now (sleep 50 io) + round_up 50 (timeout - (now (sleep 50 io) - start_time))\<rparr>)"
      using "1.IH"(2) [OF True] "1.prems" by simp
    also have "\<dots> = ((False, response), io\<lparr>now := now io + round_up 50 (timeout - (now io - start_time))\<rparr>)"
      using True round_up_step [of "timeout - (now io - start_time)" 50]
      by (simp add: sleep_def algebra_simps)
    finally show ?thesis .
  qed
qed

lemma wait_loop_silent:
  "rx io = [] \<Longrightarrow>
   wait_loop e t st r io = ((False, r), io\<lparr>now := now io + round_up 100 (t - (now io - st))\<rparr>)"
proof (induction e t st r io rule: wait_loop.induct)
  case (1 expected timeout start response io)
  show ?case
  proof (cases "now io - start < timeout")
    case False
    then show ?thesis
      by (subst wait_loop.simps) (simp add: round_up_def)
  next
    case True
    then have "wait_loop expected timeout start response io =
               wait_loop expected timeout start response (sleep 100 io)"
      using "1.prems" by (subst wait_loop.simps) simp
    also have "\<dots> = ((False, response),
        (sleep 100 io)\<lparr>now := now (sleep 100 io) + round_up 100 (timeout - (now (sleep 100 io) - start))\<rparr>)"
      using "1.IH"(2) [OF True] "1.prems" by simp
    also have "\<dots> = ((False, response), io\<lparr>now := now io + round_up 100 (timeout - (now io - start))\<rparr>)"
      using True round_up_step [of "timeout - (now io - start)" 100]
      by (simp add: sleep_def algebra_simps)
    finally show ?thesis .
  qed
qed

lemma send_at_silent:
  "rx io = [] \<Longrightarrow>
   send_at c e t io = ((False, []), io\<lparr>now := now io + round_up 50 t, tx := tx io @ [Line c]\<rparr>)"
  by (simp add: send_at_def Let_def send_at_loop_silent ser_write_def)

lemma wait_for_response_silent:
  "rx io = [] \<Longrightarrow>
   wait_for_response e t io = ((False, []), io\<lparr>now := now io + round_up 100 t\<rparr>)"
  by (simp add: wait_for_response_def wait_loop_silent)

text \<open>Unfolding the loops on a transport that is given explicitly.\<close>

lemma send_at_loop_eval:
  "send_at_loop expected timeout start_time response \<lparr>now = n, rx = d # ds, tx = ys\<rparr> =
     (if n - start_time < timeout then
        (if d \<noteq> [] then
           (if sublist expected (response @ d) \<or> sublist ''ERROR'' (response @ d)
            then ((sublist expected (response @ d), response @ d), \<lparr>now = n, rx = ds, tx = ys\<rparr>)
            else send_at_loop expected timeout start_time (response @ d)
                   \<lparr>now = n + 50, rx = ds, tx = ys\<rparr>)
         else send_at_loop expected timeout start_time response \<lparr>now = n + 50, rx = ds, tx = ys\<rparr>)
      else ((False, response), \<lparr>now = n, rx = d # ds, tx = ys\<rparr>))"
  by (subst send_at_loop.simps) (simp add: Let_def waiting_def polled_def sleep_def)

lemma wait_loop_eval:
  "wait_loop expected timeout start response \<lparr>now = n, rx = d # ds, tx = ys\<rparr> =
     (if n - start < timeout then
        (if d \<noteq> [] then
           (if sublist expected (response @ d) then ((True, response @ d), \<lparr>now = n, rx = ds, tx = ys\<rparr>)
            else if sublist ''ERROR'' (response @ d)
            then ((False, response @ d), \<lparr>now = n, rx = ds, tx = ys\<rparr>)
            else wait_loop expected timeout start (response @ d) \<lparr>now = n + 100, rx = ds, tx = ys\<rparr>)
         else wait_loop expected timeout start response \<lparr>now = n + 100, rx = ds, tx = ys\<rparr>)
      else ((False, response), \<lparr>now = n, rx = d # ds, tx = ys\<rparr>))"
  by (subst wait_loop.simps) (simp add: Let_def waiting_def polled_def sleep_def)

lemma send_at_loop_eval_silent:
  "send_at_loop expected timeout start_time response \<lparr>now = n, rx = [], tx = ys\<rparr> =
     ((False, response), \<lparr>now = n + round_up 50 (timeout - (n - start_time)), rx = [], tx = ys\<rparr>)"
  by (simp add: send_at_loop_silent)

lemma wait_loop_eval_silent:
  "wait_loop expected timeout start response \<lparr>now = n, rx = [], tx = ys\<rparr> =
     ((False, response), \<lparr>now = n + round_up 100 (timeout - (n - start)), rx = [], tx = ys\<rparr>)"
  by (simp add: wait_loop_silent)

lemma wait_registration_eval:
  "wait_registration n \<lparr>now = t, rx = xs, tx = ys\<rparr> =
     (if n = 0 then \<lparr>now = t, rx = xs, tx = ys\<rparr>
      else (case send_at ''AT+CREG?'' ''OK'' 2000 \<lparr>now = t, rx = xs, tx = ys\<rparr> of
              ((ok, resp), io1) \<Rightarrow>
                if sublist '',1'' resp \<or> sublist '',5'' resp then io1
                else wait_registration (n - 1) (sleep 2000 io1)))"
  by (cases n) (auto split: prod.splits)

lemma send_at_eval:
  "send_at c e t \<lparr>now = n, rx = xs, tx = ys\<rparr> =
     send_at_loop e t n [] \<lparr>now = n, rx = xs, tx = ys @ [Line c]\<rparr>"
  by (simp add: send_at_def ser_write_def)

lemma wait_for_response_eval:
  "wait_for_response e t \<lparr>now = n, rx = xs, tx = ys\<rparr> =
     wait_loop e t n [] \<lparr>now = n, rx = xs, tx = ys\<rparr>"
  by (simp add: wait_for_response_def)

lemma sleep_eval:
  "sleep d \<lparr>now = n, rx = xs, tx = ys\<rparr> = \<lparr>now = n + int d, rx = xs, tx = ys\<rparr>"
  by (simp add: sleep_def)

lemma ser_write_eval:
  "ser_write e \<lparr>now = n, rx = xs, tx = ys\<rparr> = \<lparr>now = n, rx = xs, tx = ys @ [e]\<rparr>"
  by (simp add: ser_write_def)

lemmas eval_io = send_at_eval wait_for_response_eval send_at_loop_eval wait_loop_eval
  send_at_loop_eval_silent wait_loop_eval_silent wait_registration_eval round_up_def
  sleep_eval ser_write_eval sublist_code Let_def

lemmas eval_cong = let_weak_cong prod.case_cong_weak option.case_cong_weak
  list.case_cong_weak sum.case_cong_weak

text \<open>
  Claim C4, as the code has it.  For \<^verbatim>\<open>send_at\<close> (polling every 50 ms) and for
  \<^verbatim>\<open>wait_for_response\<close> (every 100 ms):
  the result is matched exactly when some poll read data and the expected token occurs in
  the accumulated response (for a non-empty token: exactly when it occurs);
  when \<^verbatim>\<open>ERROR\<close> occurs in the response the call has returned before the timeout, and it
  reports a failure unless the expected token occurs as well;
  when neither token occurs the call reports a failure, and not before the timeout has
  elapsed;
  the call always returns (both loops are total functions), the clock never runs backwards,
  and the call returns less than one polling interval after the timeout.
\<close>

theorem C4_transaction:
  "(send_at command expected timeout io = ((m, resp), io') \<longrightarrow>
      (m \<longleftrightarrow> resp \<noteq> [] \<and> sublist expected resp)
    \<and> (sublist ''ERROR'' resp \<longrightarrow> m = sublist expected resp \<and> now io' - now io < timeout)
    \<and> (\<not> sublist ''ERROR'' resp \<and> \<not> sublist expected resp \<longrightarrow>
          \<not> m \<and> timeout \<le> now io' - now io)
    \<and> now io \<le> now io' \<and> now io' - now io < max timeout 0 + 50)
   \<and> (wait_for_response expected timeout io = ((m, resp), io') \<longrightarrow>
      (m \<longleftrightarrow> resp \<noteq> [] \<and> sublist expected resp)
    \<and> (sublist ''ERROR'' resp \<longrightarrow> m = sublist expected resp \<and> now io' - now io < timeout)
    \<and> (\<not> sublist ''ERROR'' resp \<and> \<not> sublist expected resp \<longrightarrow>
          \<not> m \<and> timeout \<le> now io' - now io)
    \<and> now io \<le> now io' \<and> now io' - now io < max timeout 0 + 100)"
proof (intro conjI impI)
  assume a: "send_at command expected timeout io = ((m, resp), io')"
  have s: "(m \<longleftrightarrow> resp \<noteq> [] \<and> sublist expected resp)
       \<and> (m \<or> sublist ''ERROR'' resp \<longrightarrow> now io' - now io < timeout)
       \<and> (\<not> m \<and> \<not> sublist ''ERROR'' resp \<longrightarrow> timeout \<le> now io' - now io)
       \<and> now io \<le> now io' \<and> now io' - now io < max timeout 0 + 50"
    using send_at_loop_spec [of expected timeout "now io" "[]" "ser_write (Line command) io" m resp io'] a
    by (simp add: send_at_def Let_def)
  from s show "m \<longleftrightarrow> resp \<noteq> [] \<and> sublist expected resp" by simp
  from s show "now io \<le> now io'" by simp
  from s show "now io' - now io < max timeout 0 + 50" by simp
  { assume "sublist ''ERROR'' resp"
    with s show "m = sublist expected resp" by auto
    from s \<open>sublist ''ERROR'' resp\<close> show "now io' - now io < timeout" by simp }
  { assume n: "\<not> sublist ''ERROR'' resp \<and> \<not> sublist expected resp"
    with s show "\<not> m" by simp
    with s n show "timeout \<le> now io' - now io" by simp }
next
  assume a: "wait_for_response expected timeout io = ((m, resp), io')"
  have s: "(m \<longleftrightarrow> resp \<noteq> [] \<and> sublist expected resp)
       \<and> (m \<or> sublist ''ERROR'' resp \<longrightarrow> now io' - now io < timeout)
       \<and> (\<not> m \<and> \<not> sublist ''ERROR'' resp \<longrightarrow> timeout \<le> now io' - now io)
       \<and> now io \<le> now io' \<and> now io' - now io < max timeout 0 + 100"
    using wait_loop_spec [of expected timeout "now io" "[]" io m resp io'] a
    by (simp add: wait_for_response_def)
  from s show "m \<longleftrightarrow> resp \<noteq> [] \<and> sublist expected resp" by simp
  from s show "now io \<le> now io'" by simp
  from s show "now io' - now io < max timeout 0 + 100" by simp
  { assume "sublist ''ERROR'' resp"
    with s show "m = sublist expected resp" by auto
    from s \<open>sublist ''ERROR'' resp\<close> show "now io' - now io < timeout" by simp }
  { assume n: "\<not> sublist ''ERROR'' resp \<and> \<not> sublist expected resp"
    with s show "\<not> m" by simp
    with s n show "timeout \<le> now io' - now io" by simp }
qed

text \<open>
  The claim as stated fails: a response that holds \<^verbatim>\<open>ERROR\<close> and the expected token is
  reported as matched; and a timeout of 120 ms, which is not a multiple of the polling
  interval, lets the call return at 150 ms.
\<close>

theorem C4_transaction_counterexample:
  "send_at ''AT'' ''OK'' 5000 \<lparr>now = 0, rx = [''+CME ERROR: 50 OK''], tx = []\<rparr>
     = ((True, ''+CME ERROR: 50 OK''), \<lparr>now = 0, rx = [], tx = [Line ''AT'']\<rparr>)
   \<and> sublist ''ERROR'' ''+CME ERROR: 50 OK''
   \<and> send_at ''AT'' ''OK'' 120 \<lparr>now = 0, rx = [], tx = []\<rparr>
     = ((False, []), \<lparr>now = 150, rx = [], tx = [Line ''AT'']\<rparr>)"
  by (simp add: eval_io cong: eval_cong)

theorem C4_transaction_witness:
  "send_at ''AT'' ''OK'' 200 \<lparr>now = 0, rx = ['''', ''ERROR''], tx = []\<rparr>
     = ((False, ''ERROR''), \<lparr>now = 50, rx = [], tx = [Line ''AT'']\<rparr>)
   \<and> sublist ''ERROR'' ''ERROR'' \<and> \<not> sublist ''OK'' ''ERROR'' \<and> (50::int) - 0 < 200
   \<and> send_at ''AT'' ''OK'' 200 \<lparr>now = 0, rx = [], tx = []\<rparr>
     = ((False, []), \<lparr>now = 200, rx = [], tx = [Line ''AT'']\<rparr>)
   \<and> \<not> sublist ''ERROR'' [] \<and> \<not> sublist ''OK'' [] \<and> (200::int) \<le> 200 - 0
   \<and> wait_for_response ''OK'' 200 \<lparr>now = 0, rx = ['''', ''OK''], tx = []\<rparr>
     = ((True, ''OK''), \<lparr>now = 100, rx = [], tx = []\<rparr>)
   \<and> wait_for_response ''OK'' 200 \<lparr>now = 0, rx = [''ERROR''], tx = []\<rparr>
     = ((False, ''ERROR''), \<lparr>now = 0, rx = [], tx = []\<rparr>)
   \<and> wait_for_response ''OK'' 200 \<lparr>now = 0, rx = [], tx = []\<rparr>
     = ((False, []), \<lparr>now = 200, rx = [], tx = []\<rparr>)"
  using
    C4_transaction [of "''AT''" "''OK''" 200 "\<lparr>now = 0, rx = ['''', ''ERROR''], tx = []\<rparr>"
      False "''ERROR''" "\<lparr>now = 50, rx = [], tx = [Line ''AT'']\<rparr>"]
    C4_transaction [of "''AT''" "''OK''" 200 "\<lparr>now = 0, rx = [], tx = []\<rparr>"
      False "[]" "\<lparr>now = 200, rx = [], tx = [Line ''AT'']\<rparr>"]
    C4_transaction [of "''AT''" "''OK''" 200 "\<lparr>now = 0, rx = ['''', ''OK''], tx = []\<rparr>"
      True "''OK''" "\<lparr>now = 100, rx = [], tx = []\<rparr>"]
    C4_transaction [of "''AT''" "''OK''" 200 "\<lparr>now = 0, rx = [''ERROR''], tx = []\<rparr>"
      False "''ERROR''" "\<lparr>now = 0, rx = [], tx = []\<rparr>"]
    C4_transaction [of "''AT''" "''OK''" 200 "\<lparr>now = 0, rx = [], tx = []\<rparr>"
      False "[]" "\<lparr>now = 200, rx = [], tx = []\<rparr>"]
  by (simp add: eval_io cong: eval_cong)

subsection \<open>Network setup\<close>




subsection \<open>Uploads\<close>

lemma now_send_all: "now io \<le> now (send_all cs io)"
proof -
  have "now io \<le> now (foldl (\<lambda>io c. snd (send_at c ''OK'' 5000 io)) io cs)"
  proof (induction cs arbitrary: io)
    case Nil
    show ?case by simp
  next
    case (Cons c cs)
    have "now io \<le> now (snd (send_at c ''OK'' 5000 io))" by (rule now_send_at)
    also have "\<dots> \<le> now (foldl (\<lambda>io c. snd (send_at c ''OK'' 5000 io)) (snd (send_at c ''OK'' 5000 io)) cs)"
      by (rule Cons.IH)
    finally show ?case by simp
  qed
  then show ?thesis by (simp add: send_all_def)
qed

lemma tx_send_all: "tx (send_all cs io) = tx io @ map Line cs"
proof -
  have "tx (foldl (\<lambda>io c. snd (send_at c ''OK'' 5000 io)) io cs) = tx io @ map Line cs"
    by (induction cs arbitrary: io) simp_all
  then show ?thesis by (simp add: send_all_def)
qed

lemma tx_ser_write [simp]: "tx (ser_write e io) = tx io @ [e]"
  by (simp add: ser_write_def)

lemma tx_check_signal: "tx (snd (check_signal io)) = tx io @ [Line ''AT+CSQ'']"
proof -
  have "snd (check_signal io) = snd (send_at ''AT+CSQ'' ''OK'' 2000 io)"
    by (simp add: check_signal_def case_prod_beta split: list.splits option.splits)
  then show ?thesis by simp
qed

lemma now_check_signal: "now io \<le> now (snd (check_signal io))"
proof -
  have "snd (check_signal io) = snd (send_at ''AT+CSQ'' ''OK'' 2000 io)"
    by (simp add: check_signal_def case_prod_beta split: list.splits option.splits)
  then show ?thesis by (simp add: now_send_at)
qed

lemma tx_open_session:
  "tx (snd (open_session ftp filename use_append io)) =
     tx io @ map Line (ftp_config_commands ftp filename use_append) @ [Line ''AT+FTPPUT=1'']"
  by (simp add: open_session_def Let_def tx_send_all)

lemma now_open_session: "now io \<le> now (snd (open_session ftp filename use_append io))"
proof -
  have "now io \<le> now (ser_write (Line ''AT+FTPPUT=1'') (send_all (ftp_config_commands ftp filename use_append) io))"
    by (simp add: now_send_all)
  also have "\<dots> \<le> now (snd (open_session ftp filename use_append io))"
    unfolding open_session_def Let_def by (rule now_wait_for_response)
  finally show ?thesis .
qed

lemma tx_close_session: "tx (snd (close_session io)) = tx io @ [Line ''AT+FTPPUT=2,0'']"
  by (simp add: close_session_def Let_def)

lemma now_close_session: "now io \<le> now (snd (close_session io))"
proof -
  have "now io \<le> now (sleep 500 io)" by simp
  also have "\<dots> \<le> now (snd (send_at ''AT+FTPPUT=2,0'' ''OK'' 5000 (sleep 500 io)))"
    by (rule now_send_at)
  also have "\<dots> \<le> now (snd (close_session io))"
    unfolding close_session_def Let_def by (rule now_wait_for_response)
  finally show ?thesis .
qed

text \<open>The loop over the chunks does not run for an empty file.\<close>

lemma send_chunks_empty:
  "job_data j = [] \<Longrightarrow> send_chunks j pos b lsc io pf = (Inr b, io, pf)"
  by (subst send_chunks.simps) simp

lemma load_progress_bound: "load_progress fp io pf < length data \<Longrightarrow> data \<noteq> []"
  by auto

lemma chunk_attempts_eval:
  "chunk_attempts max_retries retry_delay chunk attempt \<lparr>now = n, rx = xs, tx = ys\<rparr> =
     (if attempt < max_retries then
        (case wait_for_response ''+FTPPUT: 2,'' 15000
                \<lparr>now = n, rx = xs, tx = ys @ [announce chunk]\<rparr> of
           ((ok, resp), io2) \<Rightarrow>
             if \<not> ok then
               chunk_attempts max_retries retry_delay chunk (attempt + 1)
                 (if attempt < max_retries - 1 then sleep retry_delay io2 else io2)
             else
               (case wait_for_response ''OK'' 15000 (ser_write (Raw chunk) io2) of
                  ((ok, resp), io4) \<Rightarrow>
                    if ok then (True, io4)
                    else chunk_attempts max_retries retry_delay chunk (attempt + 1)
                           (if attempt < max_retries - 1 then sleep retry_delay io4 else io4)))
      else (False, \<lparr>now = n, rx = xs, tx = ys\<rparr>))"
  by (subst chunk_attempts.simps) (simp add: Let_def ser_write_def split: prod.splits)

lemma send_chunks_eval:
  "send_chunks j pos bytes_sent last_signal_check \<lparr>now = n, rx = xs, tx = ys\<rparr> pf =
     (if bytes_sent < length (job_data j) then
        (case (if n - last_signal_check > 30000
               then (snd (check_signal \<lparr>now = n, rx = xs, tx = ys\<rparr>),
                     now (snd (check_signal \<lparr>now = n, rx = xs, tx = ys\<rparr>)))
               else (\<lparr>now = n, rx = xs, tx = ys\<rparr>, last_signal_check)) of
           (io1, last_signal_check') \<Rightarrow>
             if file_read (job_max_chunk j) pos (job_data j) = [] then (Inr bytes_sent, io1, pf)
             else
               (case chunk_attempts (job_max_retries j) (job_retry_delay j)
                       (file_read (job_max_chunk j) pos (job_data j)) 0 io1 of
                  (chunk_sent, io2) \<Rightarrow>
                    if \<not> chunk_sent
                    then (Inl bytes_sent, io2, save_progress (job_filepath j) bytes_sent io2 pf)
                    else send_chunks j (pos + length (file_read (job_max_chunk j) pos (job_data j)))
                           (bytes_sent + length (file_read (job_max_chunk j) pos (job_data j)))
                           last_signal_check' io2
                           (if int ((bytes_sent + length (file_read (job_max_chunk j) pos (job_data j)))
                                     mod (500 * 1024)) < job_max_chunk j
                            then save_progress (job_filepath j)
                                   (bytes_sent + length (file_read (job_max_chunk j) pos (job_data j))) io2 pf
                            else pf)))
      else (Inr bytes_sent, \<lparr>now = n, rx = xs, tx = ys\<rparr>, pf))"
  by (subst send_chunks.simps) (simp add: Let_def split: prod.splits)

lemmas eval_upload = upload_ftp_def resume_point_def open_session_def close_session_def send_all_def
  ftp_config_commands_def load_progress_def save_progress_def clear_progress_def basename_def
  file_read_def check_signal_def chunk_attempts_eval send_chunks_eval py_str.simps
  announce_def working_chunk_size_def
  py_int_def py_strip_def py_isspace_def is_digit_def digit_value_def

lemma raws_append [simp]: "raws (xs @ ys) = raws xs @ raws ys"
  by (induction xs rule: raws.induct) simp_all

lemma raws_map_Line [simp]: "raws (map Line cs) = []"
  by (induction cs) simp_all

lemma raws_attempts:
  "set as \<subseteq> {[announce c], [announce c, Raw c]} \<Longrightarrow>
     \<exists>n. n \<le> length as \<and> raws (concat as) = replicate n c
         \<and> (as \<noteq> [] \<and> last as = [announce c, Raw c] \<longrightarrow> 1 \<le> n)"
proof (induction as)
  case Nil
  show ?case by simp
next
  case (Cons a as)
  then obtain n where n: "n \<le> length as" "raws (concat as) = replicate n c"
    "as \<noteq> [] \<and> last as = [announce c, Raw c] \<longrightarrow> 1 \<le> n"
    by auto
  from Cons.prems have "a = [announce c] \<or> a = [announce c, Raw c]" by auto
  then show ?case
  proof
    assume a: "a = [announce c]"
    with n show ?thesis
      by (intro exI[of _ n]) (auto simp: announce_def)
  next
    assume a: "a = [announce c, Raw c]"
    with n show ?thesis
      by (intro exI[of _ "Suc n"]) (auto simp: announce_def)
  qed
qed

lemma wait_for_response_frame:
  "wait_for_response e t io = (r, io') \<Longrightarrow> tx io' = tx io \<and> now io \<le> now io'"
  by (metis snd_conv tx_wait_for_response now_wait_for_response)

lemma send_at_frame:
  "send_at c e t io = (r, io') \<Longrightarrow> tx io' = tx io @ [Line c] \<and> now io \<le> now io'"
  by (metis snd_conv tx_send_at now_send_at)

lemma chunk_attempts_spec:
  assumes "chunk_attempts mr rd c a io = (sent, io')"
  shows "\<exists>as. tx io' = tx io @ concat as
            \<and> set as \<subseteq> {[announce c], [announce c, Raw c]}
            \<and> length as \<le> mr - a
            \<and> (sent \<longrightarrow> as \<noteq> [] \<and> last as = [announce c, Raw c])
            \<and> (\<not> sent \<longrightarrow> length as = mr - a)
            \<and> int rd * (int (length as) - 1) \<le> now io' - now io
            \<and> now io \<le> now io'"
  using assms
proof (induction "mr - a" arbitrary: a io)
  case 0
  then have "\<not> a < mr" by simp
  with "0.prems" have "sent = False" "io' = io"
    by (subst (asm) chunk_attempts.simps; simp)+
  moreover have "int rd * (int (length ([]::tx_event list list)) - 1) \<le> 0" by simp
  ultimately show ?case using 0
    by (intro exI[of _ "[]"]) simp
next
  case (Suc m)
  then have a: "a < mr" and m: "m = mr - (a + 1)" by simp_all
  define io1 where "io1 = ser_write (announce c) io"
  obtain ok1 r1 io2 where w1: "wait_for_response ''+FTPPUT: 2,'' 15000 io1 = ((ok1, r1), io2)"
    by (metis prod.exhaust)
  have tx2: "tx io2 = tx io @ [announce c]"
    using wait_for_response_frame [OF w1] by (simp add: io1_def)
  have now2: "now io \<le> now io2"
    using wait_for_response_frame [OF w1] by (simp add: io1_def)
  define pause where "pause = (\<lambda>x. if a < mr - 1 then sleep rd x else x)"
  have pause_now: "now x \<le> now (pause x)" "a < mr - 1 \<Longrightarrow> now (pause x) = now x + int rd"
    "tx (pause x) = tx x" for x
    by (simp_all add: pause_def)
  have last_attempt: "\<not> a < mr - 1 \<Longrightarrow> mr - (a + 1) = 0" by simp
  show ?case
  proof (cases ok1)
    case False
    with a w1 Suc.prems have rec: "chunk_attempts mr rd c (a + 1) (pause io2) = (sent, io')"
      by (subst (asm) chunk_attempts.simps) (simp add: Let_def io1_def announce_def pause_def)
    from Suc.hyps(1) [OF m rec] obtain as where as:
      "tx io' = tx (pause io2) @ concat as"
      "set as \<subseteq> {[announce c], [announce c, Raw c]}"
      "length as \<le> mr - (a + 1)"
      "sent \<longrightarrow> as \<noteq> [] \<and> last as = [announce c, Raw c]"
      "\<not> sent \<longrightarrow> length as = mr - (a + 1)"
      "int rd * (int (length as) - 1) \<le> now io' - now (pause io2)"
      "now (pause io2) \<le> now io'"
      by blast
    have time: "int rd * (int (length ([announce c] # as)) - 1) \<le> now io' - now io"
    proof (cases "a < mr - 1")
      case True
      with as(6) pause_now(2) [of io2] now2 show ?thesis
        by (simp add: algebra_simps)
    next
      case False
      with as(3) last_attempt have "length as = 0" by simp
      with as(7) pause_now(1) [of io2] now2 show ?thesis by simp
    qed
    show ?thesis
      using as tx2 a now2 pause_now(1)[of io2] pause_now(3)[of io2] time
      by (intro exI[of _ "[announce c] # as"]) auto
  next
    case True
    note prompt = True
    define io3 where "io3 = ser_write (Raw c) io2"
    obtain ok2 r2 io4 where w2: "wait_for_response ''OK'' 15000 io3 = ((ok2, r2), io4)"
      by (metis prod.exhaust)
    have tx4: "tx io4 = tx io @ [announce c, Raw c]"
      using wait_for_response_frame [OF w2] tx2 by (simp add: io3_def)
    have now4: "now io \<le> now io4"
      using wait_for_response_frame [OF w2] now2 by (simp add: io3_def)
    show ?thesis
    proof (cases ok2)
      case True
      with a w1 w2 prompt Suc.prems have "sent = True" "io' = io4"
        by (subst (asm) chunk_attempts.simps; simp add: Let_def io1_def io3_def announce_def)+
      then show ?thesis
        using tx4 now4 a
        by (intro exI[of _ "[[announce c, Raw c]]"]) simp
    next
      case False
      with a w1 w2 prompt Suc.prems
      have rec: "chunk_attempts mr rd c (a + 1) (pause io4) = (sent, io')"
        by (subst (asm) chunk_attempts.simps)
           (simp add: Let_def io1_def io3_def announce_def pause_def)
      from Suc.hyps(1) [OF m rec] obtain as where as:
        "tx io' = tx (pause io4) @ concat as"
        "set as \<subseteq> {[announce c], [announce c, Raw c]}"
        "length as \<le> mr - (a + 1)"
        "sent \<longrightarrow> as \<noteq> [] \<and> last as = [announce c, Raw c]"
        "\<not> sent \<longrightarrow> length as = mr - (a + 1)"
        "int rd * (int (length as) - 1) \<le> now io' - now (pause io4)"
        "now (pause io4) \<le> now io'"
        by blast
      have time: "int rd * (int (length ([announce c, Raw c] # as)) - 1) \<le> now io' - now io"
      proof (cases "a < mr - 1")
        case True
        with as(6) pause_now(2) [of io4] now4 show ?thesis
          by (simp add: algebra_simps)
      next
        case False
        with as(3) last_attempt have "length as = 0" by simp
        with as(7) pause_now(1) [of io4] now4 show ?thesis by simp
      qed
      show ?thesis
        using as tx4 a now4 pause_now(1)[of io4] pause_now(3)[of io4] time
        by (intro exI[of _ "[announce c, Raw c] # as"]) auto
    qed
  qed
qed

lemma drop_length_take: "drop (length (take n xs)) xs = drop n xs"
  by (cases "n \<le> length xs") (simp_all add: min_def)

lemma file_read_prefix: "drop b data = file_read mc b data @ drop (b + length (file_read mc b data)) data"
proof (cases "mc < 0")
  case True
  then show ?thesis by (simp add: file_read_def)
next
  case False
  have "drop (b + length (take (nat mc) (drop b data))) data
          = drop (length (take (nat mc) (drop b data))) (drop b data)"
    by (metis add.commute drop_drop)
  also have "\<dots> = drop (nat mc) (drop b data)"
    by (rule drop_length_take)
  finally have "drop (b + length (file_read mc b data)) data = drop (nat mc) (drop b data)"
    using False by (simp add: file_read_def)
  moreover have "file_read mc b data = take (nat mc) (drop b data)"
    using False by (simp add: file_read_def)
  ultimately show ?thesis
    by (metis append_take_drop_id)
qed

lemma file_read_empty: "b < length data \<Longrightarrow> file_read mc b data = [] \<Longrightarrow> mc = 0"
  by (auto simp: file_read_def split: if_splits)


lemma send_chunks_spec:
  assumes "send_chunks j b b lsc io pf = (res, io', pf')"
  shows "\<exists>evs cs ns c n.
      tx io' = tx io @ evs
    \<and> raws evs = concat (map2 replicate ns cs) @ replicate n c
    \<and> length ns = length cs \<and> (\<forall>m\<in>set ns. 1 \<le> m \<and> m \<le> job_max_retries j)
    \<and> n \<le> job_max_retries j
    \<and> prefix (concat cs @ c) (drop b (job_data j))
    \<and> now io \<le> now io'
    \<and> (case res of
          Inr b' \<Rightarrow> n = 0 \<and> b' = b + length (concat cs)
                     \<and> (job_max_chunk j \<noteq> 0 \<longrightarrow> concat cs = drop b (job_data j))
        | Inl f \<Rightarrow> f = b + length (concat cs) \<and> c \<noteq> []
                     \<and> pf' = Some \<lparr>p_filepath = job_filepath j, p_bytes_sent = f,
                                    p_timestamp = now io'\<rparr>)"
  using assms
proof (induction "length (job_data j) - b" arbitrary: b lsc io pf rule: less_induct)
  case less
  show ?case
  proof (cases "b < length (job_data j)")
    case False
    with less.prems have "res = Inr b" "io' = io" "pf' = pf"
      by (subst (asm) send_chunks.simps; simp)+
    with False show ?thesis
      by (intro exI[of _ "[]"]) simp
  next
    case True
    note inloop = True
    define due where "due = (now io - lsc > 30000)"
    define io1 where "io1 = (if due then snd (check_signal io) else io)"
    define lsc' where "lsc' = (if due then now io1 else lsc)"
    define chunk where "chunk = file_read (job_max_chunk j) b (job_data j)"
    obtain sig where sig: "tx io1 = tx io @ sig" "raws sig = []" "now io \<le> now io1"
      by (cases due) (auto simp: io1_def tx_check_signal now_check_signal)
    show ?thesis
    proof (cases "chunk = []")
      case True
      with inloop less.prems have r: "res = Inr b" "io' = io1" "pf' = pf"
        by (subst (asm) send_chunks.simps;
            simp add: Let_def chunk_def io1_def due_def split: prod.splits)+
      from True inloop have "job_max_chunk j = 0"
        unfolding chunk_def by (rule file_read_empty [rotated])
      with r sig show ?thesis
        by (intro exI[of _ sig] exI[of _ "[]"]) simp
    next
      case False
      note nonempty = False
      obtain sent io2 where att:
        "chunk_attempts (job_max_retries j) (job_retry_delay j) chunk 0 io1 = (sent, io2)"
        by (metis prod.exhaust)
      from chunk_attempts_spec [OF att] obtain as where as:
        "tx io2 = tx io1 @ concat as"
        "set as \<subseteq> {[announce chunk], [announce chunk, Raw chunk]}"
        "length as \<le> job_max_retries j"
        "sent \<longrightarrow> as \<noteq> [] \<and> last as = [announce chunk, Raw chunk]"
        "now io1 \<le> now io2"
        by auto
      from raws_attempts [OF as(2)] obtain n where n:
        "n \<le> length as" "raws (concat as) = replicate n chunk"
        "as \<noteq> [] \<and> last as = [announce chunk, Raw chunk] \<longrightarrow> 1 \<le> n"
        by blast
      have split: "drop b (job_data j) = chunk @ drop (b + length chunk) (job_data j)"
        unfolding chunk_def by (rule file_read_prefix)
      show ?thesis
      proof (cases sent)
        case False
        with inloop nonempty att less.prems
        have r: "res = Inl b" "io' = io2"
          "pf' = save_progress (job_filepath j) b io2 pf"
          by (subst (asm) send_chunks.simps;
              simp add: Let_def chunk_def io1_def due_def split: prod.splits)+
        have "prefix chunk (drop b (job_data j))"
          by (subst split) simp
        with r sig as n nonempty show ?thesis
          by (intro exI[of _ "sig @ concat as"] exI[of _ "[]"] exI[of _ "[]"]
                exI[of _ chunk] exI[of _ n])
             (simp add: save_progress_def)
      next
        case True
        define b1 where "b1 = b + length chunk"
        define pf1 where "pf1 = (if int (b1 mod (500 * 1024)) < job_max_chunk j
                                  then save_progress (job_filepath j) b1 io2 pf else pf)"
        from True inloop nonempty att less.prems
        have rec: "send_chunks j b1 b1 lsc' io2 pf1 = (res, io', pf')"
          by (subst (asm) send_chunks.simps)
             (auto simp: Let_def chunk_def io1_def due_def lsc'_def b1_def pf1_def
                split: prod.splits if_splits)
        have "length (job_data j) - b1 < length (job_data j) - b"
          using inloop nonempty by (cases chunk) (simp_all add: b1_def)
        from less.hyps [OF this rec] obtain evs cs ns c m where ih:
          "tx io' = tx io2 @ evs"
          "raws evs = concat (map2 replicate ns cs) @ replicate m c"
          "length ns = length cs" "\<forall>k\<in>set ns. 1 \<le> k \<and> k \<le> job_max_retries j"
          "m \<le> job_max_retries j"
          "prefix (concat cs @ c) (drop b1 (job_data j))"
          "now io2 \<le> now io'"
          "case res of
             Inr b' \<Rightarrow> m = 0 \<and> b' = b1 + length (concat cs)
                        \<and> (job_max_chunk j \<noteq> 0 \<longrightarrow> concat cs = drop b1 (job_data j))
           | Inl f \<Rightarrow> f = b1 + length (concat cs) \<and> c \<noteq> []
                        \<and> pf' = Some \<lparr>p_filepath = job_filepath j, p_bytes_sent = f,
                                       p_timestamp = now io'\<rparr>"
          by blast
        from True as(4) n(3) have n1: "1 \<le> n" by simp
        have pre: "prefix (concat (chunk # cs) @ c) (drop b (job_data j))"
          using ih(6) by (subst split) (simp add: b1_def)
        have res: "case res of
             Inr b' \<Rightarrow> m = 0 \<and> b' = b + length (concat (chunk # cs))
                        \<and> (job_max_chunk j \<noteq> 0 \<longrightarrow> concat (chunk # cs) = drop b (job_data j))
           | Inl f \<Rightarrow> f = b + length (concat (chunk # cs)) \<and> c \<noteq> []
                        \<and> pf' = Some \<lparr>p_filepath = job_filepath j, p_bytes_sent = f,
                                       p_timestamp = now io'\<rparr>"
          using ih(8) split by (auto simp: b1_def split: sum.splits)
        show ?thesis
          using sig as(1,3,5) n(1,2) n1 ih(1-5,7) pre res
          by (intro exI[of _ "sig @ concat as @ evs"] exI[of _ "chunk # cs"]
                exI[of _ "n # ns"] exI[of _ c] exI[of _ m])
             simp
      qed
    qed
  qed
qed

lemma open_session_frame:
  "open_session ftp filename use_append io = (r, io') \<Longrightarrow>
     tx io' = tx io @ map Line (ftp_config_commands ftp filename use_append) @ [Line ''AT+FTPPUT=1'']
     \<and> now io \<le> now io'"
  by (metis snd_conv tx_open_session now_open_session)

lemma close_session_frame:
  "close_session io = (r, io') \<Longrightarrow> tx io' = tx io @ [Line ''AT+FTPPUT=2,0''] \<and> now io \<le> now io'"
  by (metis snd_conv tx_close_session now_close_session)

text \<open>The three ways an upload of an existing file can end.\<close>

lemma upload_ftp_cases:
  assumes run: "upload_ftp chunk_size ftp fp (Some data) mr rd io pf = (r, io', pf')"
    and rp: "resume_point fp (length data) io pf = (off, ua)"
  obtains
    (open_failed) resp where
      "open_session ftp (basename fp) ua io = ((False, resp), io')"
      "r = (False, Failed_to_open_FTP_session resp)" "pf' = pf"
  | (chunk_failed) resp io3 f where
      "open_session ftp (basename fp) ua io = ((True, resp), io3)"
      "send_chunks \<lparr>job_filepath = fp, job_data = data,
                     job_max_chunk = working_chunk_size chunk_size resp,
                     job_max_retries = mr, job_retry_delay = rd\<rparr> off off (now io3) io3 pf
         = (Inl f, io', pf')"
      "r = (False, Failed_at_byte f mr)"
  | (sent) resp io3 b io4 pf4 ok resp' where
      "open_session ftp (basename fp) ua io = ((True, resp), io3)"
      "send_chunks \<lparr>job_filepath = fp, job_data = data,
                     job_max_chunk = working_chunk_size chunk_size resp,
                     job_max_retries = mr, job_retry_delay = rd\<rparr> off off (now io3) io3 pf
         = (Inr b, io4, pf4)"
      "close_session io4 = ((ok, resp'), io')"
      "r = (if ok then (True, Upload_successful) else (False, Upload_may_have_failed resp'))"
      "pf' = (if ok then None else Some \<lparr>p_filepath = fp, p_bytes_sent = b, p_timestamp = now io'\<rparr>)"
proof -
  obtain ok resp io3 where op: "open_session ftp (basename fp) ua io = ((ok, resp), io3)"
    by (metis prod.exhaust)
  show thesis
  proof (cases ok)
    case False
    with run rp op have "r = (False, Failed_to_open_FTP_session resp)" "io' = io3" "pf' = pf"
      by (auto simp: upload_ftp_def Let_def)
    with op False open_failed show thesis by simp
  next
    case True
    note opened = True
    define j where "j = \<lparr>job_filepath = fp, job_data = data,
                     job_max_chunk = working_chunk_size chunk_size resp,
                     job_max_retries = mr, job_retry_delay = rd\<rparr>"
    have pos: "(if 0 < off then off else 0) = off" by simp
    have run': "(case send_chunks j off off (now io3) io3 pf of
                   (Inl failed_at, io4, pf4) \<Rightarrow>
                     ((False, Failed_at_byte failed_at mr), io4, pf4)
                 | (Inr bytes_sent, io4, pf4) \<Rightarrow>
                     (let ((ok, resp), io7) = close_session io4
                      in if ok then ((True, Upload_successful), io7, clear_progress pf4)
                         else ((False, Upload_may_have_failed resp), io7,
                               save_progress fp bytes_sent io7 pf4))) = (r, io', pf')"
      using run rp op opened pos
      by (simp add: upload_ftp_def Let_def j_def)
    obtain res io4 pf4 where sc: "send_chunks j off off (now io3) io3 pf = (res, io4, pf4)"
      by (metis prod.exhaust)
    show thesis
    proof (cases res)
      case (Inl f)
      with run' sc
      have "r = (False, Failed_at_byte f mr)" "io' = io4" "pf' = pf4"
        by auto
      with op opened sc Inl chunk_failed show thesis by (simp add: j_def)
    next
      case (Inr b)
      obtain okc respc io7 where cl: "close_session io4 = ((okc, respc), io7)"
        by (metis prod.exhaust)
      with run' sc Inr
      have "r = (if okc then (True, Upload_successful) else (False, Upload_may_have_failed respc))"
        "io' = io7"
        "pf' = (if okc then None
                else Some \<lparr>p_filepath = fp, p_bytes_sent = b, p_timestamp = now io7\<rparr>)"
        by (auto simp: clear_progress_def save_progress_def split: if_splits)
      with op opened sc Inr cl sent show thesis by (simp add: j_def)
    qed
  qed
qed


lemma send_chunks_done:
  assumes "send_chunks j b b lsc io pf = (Inr b', io', pf')"
  shows "\<exists>evs cs ns.
      tx io' = tx io @ evs
    \<and> raws evs = concat (map2 replicate ns cs)
    \<and> length ns = length cs \<and> (\<forall>m\<in>set ns. 1 \<le> m \<and> m \<le> job_max_retries j)
    \<and> prefix (concat cs) (drop b (job_data j))
    \<and> b' = b + length (concat cs)
    \<and> (job_max_chunk j \<noteq> 0 \<longrightarrow> concat cs = drop b (job_data j))
    \<and> now io \<le> now io'"
proof -
  from send_chunks_spec [OF assms] obtain evs cs ns c n where
    "tx io' = tx io @ evs \<and> raws evs = concat (map2 replicate ns cs) @ replicate n c
     \<and> length ns = length cs \<and> (\<forall>m\<in>set ns. 1 \<le> m \<and> m \<le> job_max_retries j)
     \<and> n \<le> job_max_retries j \<and> prefix (concat cs @ c) (drop b (job_data j))
     \<and> now io \<le> now io'
     \<and> (n = 0 \<and> b' = b + length (concat cs)
          \<and> (job_max_chunk j \<noteq> 0 \<longrightarrow> concat cs = drop b (job_data j)))"
    by auto
  then have "tx io' = tx io @ evs \<and> raws evs = concat (map2 replicate ns cs)
     \<and> length ns = length cs \<and> (\<forall>m\<in>set ns. 1 \<le> m \<and> m \<le> job_max_retries j)
     \<and> prefix (concat cs) (drop b (job_data j))
     \<and> b' = b + length (concat cs)
     \<and> (job_max_chunk j \<noteq> 0 \<longrightarrow> concat cs = drop b (job_data j))
     \<and> now io \<le> now io'"
    by (auto dest: append_prefixD)
  then show ?thesis by blast
qed

lemma send_chunks_failed:
  assumes "send_chunks j b b lsc io pf = (Inl f, io', pf')"
  shows "\<exists>evs cs ns c n.
      tx io' = tx io @ evs
    \<and> raws evs = concat (map2 replicate ns cs) @ replicate n c
    \<and> length ns = length cs \<and> (\<forall>m\<in>set ns. 1 \<le> m \<and> m \<le> job_max_retries j)
    \<and> n \<le> job_max_retries j
    \<and> prefix (concat cs @ c) (drop b (job_data j)) \<and> c \<noteq> []
    \<and> f = b + length (concat cs)
    \<and> pf' = Some \<lparr>p_filepath = job_filepath j, p_bytes_sent = f, p_timestamp = now io'\<rparr>
    \<and> now io \<le> now io'"
proof -
  from send_chunks_spec [OF assms] obtain evs cs ns c n where
    "tx io' = tx io @ evs \<and> raws evs = concat (map2 replicate ns cs) @ replicate n c
     \<and> length ns = length cs \<and> (\<forall>m\<in>set ns. 1 \<le> m \<and> m \<le> job_max_retries j)
     \<and> n \<le> job_max_retries j \<and> prefix (concat cs @ c) (drop b (job_data j))
     \<and> now io \<le> now io'
     \<and> (f = b + length (concat cs) \<and> c \<noteq> []
          \<and> pf' = Some \<lparr>p_filepath = job_filepath j, p_bytes_sent = f,
                         p_timestamp = now io'\<rparr>)"
    by auto
  then show ?thesis by blast
qed

lemma resume_point_record:
  "resume_point fp filesize io pf =
     (case pf of
        None \<Rightarrow> (0, False)
      | Some p \<Rightarrow>
          if p_filepath p = fp \<and> now io - p_timestamp p < 3600000
             \<and> 0 < p_bytes_sent p \<and> p_bytes_sent p < filesize
          then (p_bytes_sent p, True) else (0, False))"
  by (auto simp: resume_point_def load_progress_def Let_def split: option.splits)



text \<open>
  Claim C9, as the code has it.  \<^verbatim>\<open>upload_ftp\<close> has no special case for an empty file.  It
  sends the ten configuration commands, with \<^verbatim>\<open>STOR\<close> whatever the progress record says,
  and opens the PUT session; if the ready indication does not arrive it fails.  Otherwise it
  sends no data chunk, announces the end of the data with \<^verbatim>\<open>AT+FTPPUT=2,0\<close>, and returns
  success exactly when the final status is confirmed; a success leaves no progress record.
\<close>

theorem C9_zero_byte_upload:
  "upload_ftp chunk_size ftp filepath (Some []) max_retries retry_delay io pf = (r, io', pf') \<Longrightarrow>
     (let opened = open_session ftp (basename filepath) False io;
          closed = close_session (snd opened)
      in (fst r \<longleftrightarrow> fst (fst opened) \<and> fst (fst closed))
       \<and> tx io' = tx io @ map Line (ftp_config_commands ftp (basename filepath) False)
                     @ [Line ''AT+FTPPUT=1'']
                     @ (if fst (fst opened) then [Line ''AT+FTPPUT=2,0''] else [])
       \<and> (fst r \<longrightarrow> pf' = None))"
  by (auto simp: upload_ftp_def resume_point_def Let_def case_prod_beta send_chunks_empty tx_open_session
        tx_close_session clear_progress_def split: if_splits)

text \<open>
  The claim as stated fails: with a modem that never answers, the upload of an empty file
  sends the ten configuration commands and \<^verbatim>\<open>AT+FTPPUT=1\<close>, waits 60 s for the ready
  indication and returns a failure.
\<close>

theorem C9_zero_byte_upload_counterexample:
  "upload_ftp 512000
     \<lparr>server = ''ftp.example.com'', port = 21, username = ''user'', password = ''secret'',
      remote_path = ''/uploads''\<rparr>
     [''logs'', ''empty.log''] (Some []) 3 5000 \<lparr>now = 0, rx = [], tx = []\<rparr> None
   = ((False, Failed_to_open_FTP_session []),
      \<lparr>now = 110000, rx = [],
       tx = map Line (ftp_config_commands
              \<lparr>server = ''ftp.example.com'', port = 21, username = ''user'', password = ''secret'',
               remote_path = ''/uploads''\<rparr> ''empty.log'' False) @ [Line ''AT+FTPPUT=1'']\<rparr>,
      None)"
  by (simp add: eval_upload eval_io cong: eval_cong)

text \<open>The theorem at a modem that confirms every step of the upload of an empty file.\<close>

theorem C9_zero_byte_upload_witness:
  "upload_ftp 512000
     \<lparr>server = ''ftp.example.com'', port = 21, username = ''user'', password = ''secret'',
      remote_path = ''/uploads''\<rparr>
     [''logs'', ''empty.log''] (Some []) 3 5000
     \<lparr>now = 0, rx = [''OK'', ''OK'', ''OK'', ''OK'', ''OK'', ''OK'', ''OK'', ''OK'', ''OK'', ''OK'',
                     ''+FTPPUT: 1,1,1360'', ''OK'', ''+FTPPUT: 1,0''], tx = []\<rparr> None
   = ((True, Upload_successful),
      \<lparr>now = 500, rx = [],
       tx = map Line (ftp_config_commands
              \<lparr>server = ''ftp.example.com'', port = 21, username = ''user'', password = ''secret'',
               remote_path = ''/uploads''\<rparr> ''empty.log'' False)
            @ [Line ''AT+FTPPUT=1'', Line ''AT+FTPPUT=2,0'']\<rparr>,
      None)"
  using C9_zero_byte_upload [of 512000
     "\<lparr>server = ''ftp.example.com'', port = 21, username = ''user'', password = ''secret'',
      remote_path = ''/uploads''\<rparr>"
     "[''logs'', ''empty.log'']" 3 5000
     "\<lparr>now = 0, rx = [''OK'', ''OK'', ''OK'', ''OK'', ''OK'', ''OK'', ''OK'', ''OK'', ''OK'', ''OK'',
                     ''+FTPPUT: 1,1,1360'', ''OK'', ''+FTPPUT: 1,0''], tx = []\<rparr>" None
     "(True, Upload_successful)"
     "\<lparr>now = 500, rx = [],
       tx = map Line (ftp_config_commands
              \<lparr>server = ''ftp.example.com'', port = 21, username = ''user'', password = ''secret'',
               remote_path = ''/uploads''\<rparr> ''empty.log'' False)
            @ [Line ''AT+FTPPUT=1'', Line ''AT+FTPPUT=2,0'']\<rparr>" None]
  by (simp add: eval_upload eval_io cong: eval_cong)

text \<open>
  Claim C3, as the code has it.  The upload resumes exactly when the progress record exists,
  names the file being uploaded, is less than one hour old, and holds an offset \<open>B\<close> with
  \<open>0 < B < filesize\<close>; it then starts at offset \<open>B\<close> in append mode, and otherwise at
  offset 0 in create mode.  The mode is the tenth configuration command, \<^verbatim>\<open>APPE\<close> or
  \<^verbatim>\<open>STOR\<close>.  The raw blocks written after \<^verbatim>\<open>AT+FTPPUT=1\<close> are consecutive chunks \<open>cs\<close> of
  the file starting at the offset, each acknowledged chunk written between 1 and
  \<open>max_retries\<close> times, possibly followed by up to \<open>max_retries\<close> copies of a chunk \<open>c\<close> that
  failed: nothing before the offset is sent.  An upload that succeeds with a working chunk
  size other than 0 has sent exactly the bytes from the offset to the end of the file.
\<close>

theorem C3_resume:
  assumes "upload_ftp chunk_size ftp fp (Some data) mr rd io pf = (r, io', pf')"
  shows \<open>let resume = (case pf of
                         None \<Rightarrow> False
                       | Some p \<Rightarrow> p_filepath p = fp \<and> now io - p_timestamp p < 3600000
                                    \<and> 0 < p_bytes_sent p \<and> p_bytes_sent p < length data);
             offset = (if resume then p_bytes_sent (the pf) else 0)
         in last (ftp_config_commands ftp (basename fp) resume)
              = (if resume then ''AT+FTPPUTOPT="APPE"'' else ''AT+FTPPUTOPT="STOR"'')
          \<and> (\<exists>rest cs ns c n.
                tx io' = tx io @ map Line (ftp_config_commands ftp (basename fp) resume)
                           @ [Line ''AT+FTPPUT=1''] @ rest
              \<and> raws rest = concat (map2 replicate ns cs) @ replicate n c
              \<and> length ns = length cs \<and> (\<forall>m\<in>set ns. 1 \<le> m \<and> m \<le> mr) \<and> n \<le> mr
              \<and> prefix (concat cs @ c) (drop offset data)
              \<and> (fst r \<and> working_chunk_size chunk_size
                            (snd (fst (open_session ftp (basename fp) resume io))) \<noteq> 0
                   \<longrightarrow> n = 0 \<and> concat cs = drop offset data))\<close>
proof -
  define resume where "resume = (case pf of
                         None \<Rightarrow> False
                       | Some p \<Rightarrow> p_filepath p = fp \<and> now io - p_timestamp p < 3600000
                                    \<and> 0 < p_bytes_sent p \<and> p_bytes_sent p < length data)"
  define offset where "offset = (if resume then p_bytes_sent (the pf) else 0)"
  let ?cmds = "ftp_config_commands ftp (basename fp) resume"
  have rp: "resume_point fp (length data) io pf = (offset, resume)"
    by (auto simp: resume_point_record resume_def offset_def split: option.splits)
  have mode: \<open>last ?cmds = (if resume then ''AT+FTPPUTOPT="APPE"'' else ''AT+FTPPUTOPT="STOR"'')\<close>
    by (simp add: ftp_config_commands_def)
  have sent: "\<exists>rest cs ns c n.
                tx io' = tx io @ map Line ?cmds @ [Line ''AT+FTPPUT=1''] @ rest
              \<and> raws rest = concat (map2 replicate ns cs) @ replicate n c
              \<and> length ns = length cs \<and> (\<forall>m\<in>set ns. 1 \<le> m \<and> m \<le> mr) \<and> n \<le> mr
              \<and> prefix (concat cs @ c) (drop offset data)
              \<and> (fst r \<and> working_chunk_size chunk_size
                            (snd (fst (open_session ftp (basename fp) resume io))) \<noteq> 0
                   \<longrightarrow> n = 0 \<and> concat cs = drop offset data)"
    using assms rp
  proof (cases rule: upload_ftp_cases)
    case (open_failed resp)
    from open_session_frame [OF open_failed(1)] open_failed(2) show ?thesis
      by (intro exI[of _ "[]"]) simp
  next
    case (chunk_failed resp io3 f)
    from send_chunks_failed [OF chunk_failed(2)] obtain evs cs ns c n where s:
      "tx io' = tx io3 @ evs" "raws evs = concat (map2 replicate ns cs) @ replicate n c"
      "length ns = length cs" "\<forall>m\<in>set ns. 1 \<le> m \<and> m \<le> mr" "n \<le> mr"
      "prefix (concat cs @ c) (drop offset data)"
      by auto
    with open_session_frame [OF chunk_failed(1)] chunk_failed(3) show ?thesis
      by (intro exI[of _ evs] exI[of _ cs] exI[of _ ns] exI[of _ c] exI[of _ n]) simp
  next
    case (sent resp io3 b io4 pf4 ok resp')
    from send_chunks_done [OF sent(2)] obtain evs cs ns where s:
      "tx io4 = tx io3 @ evs" "raws evs = concat (map2 replicate ns cs)"
      "length ns = length cs" "\<forall>m\<in>set ns. 1 \<le> m \<and> m \<le> mr"
      "prefix (concat cs) (drop offset data)"
      "working_chunk_size chunk_size resp \<noteq> 0 \<longrightarrow> concat cs = drop offset data"
      by auto
    with open_session_frame [OF sent(1)] close_session_frame [OF sent(3)] sent(1) show ?thesis
      by (intro exI[of _ "evs @ [Line ''AT+FTPPUT=2,0'']"] exI[of _ cs] exI[of _ ns]
            exI[of _ "[]"] exI[of _ 0]) simp
  qed
  from mode sent show ?thesis
    unfolding Let_def resume_def [symmetric] offset_def [symmetric] by simp
qed

text \<open>
  The claim as stated fails: a record of the same file, one minute old, whose offset equals
  the file size (as an unconfirmed close leaves it) does not make the upload resume.  The
  upload selects \<^verbatim>\<open>STOR\<close> and sends the file from offset 0.
\<close>

theorem C3_resume_counterexample:
  \<open>upload_ftp 512000
     \<lparr>server = ''ftp.example.com'', port = 21, username = ''user'', password = ''secret'',
      remote_path = ''/uploads''\<rparr>
     [''logs'', ''a.log''] (Some ''hello'') 3 5000
     \<lparr>now = 60000, rx = [''OK'', ''OK'', ''OK'', ''OK'', ''OK'', ''OK'', ''OK'', ''OK'', ''OK'', ''OK'',
                     ''+FTPPUT: 1,1,4'', ''+FTPPUT: 2,4'', ''OK'', ''+FTPPUT: 2,1'', ''OK'',
                     ''OK'', ''+FTPPUT: 1,0''], tx = []\<rparr>
     (Some \<lparr>p_filepath = [''logs'', ''a.log''], p_bytes_sent = 5, p_timestamp = 0\<rparr>)
   = ((True, Upload_successful),
      \<lparr>now = 60500, rx = [],
       tx = [Line ''AT+FTPCID=1'', Line ''AT+FTPSERV="ftp.example.com"'', Line ''AT+FTPPORT=21'',
             Line ''AT+FTPMODE=1'', Line ''AT+FTPUN="user"'', Line ''AT+FTPPW="secret"'',
             Line ''AT+FTPPUTNAME="a.log"'', Line ''AT+FTPPUTPATH="/uploads"'',
             Line ''AT+FTPTYPE="I"'', Line ''AT+FTPPUTOPT="STOR"'', Line ''AT+FTPPUT=1'',
             Line ''AT+FTPPUT=2,4'', Raw ''hell'', Line ''AT+FTPPUT=2,1'', Raw ''o'',
             Line ''AT+FTPPUT=2,0'']\<rparr>,
      None)\<close>
  by (simp add: eval_upload eval_io cong: eval_cong)

text \<open>
  The theorem at a record of the same file, one minute old, with 4 of 11 bytes sent: the
  upload selects \<^verbatim>\<open>APPE\<close> and sends the bytes from offset 4 on.
\<close>

theorem C3_resume_witness:
  \<open>upload_ftp 512000
     \<lparr>server = ''ftp.example.com'', port = 21, username = ''user'', password = ''secret'',
      remote_path = ''/uploads''\<rparr>
     [''logs'', ''a.log''] (Some ''hello world'') 3 5000
     \<lparr>now = 60000, rx = [''OK'', ''OK'', ''OK'', ''OK'', ''OK'', ''OK'', ''OK'', ''OK'', ''OK'', ''OK'',
                     ''+FTPPUT: 1,1,4'', ''+FTPPUT: 2,4'', ''OK'', ''+FTPPUT: 2,3'', ''OK'',
                     ''OK'', ''+FTPPUT: 1,0''], tx = []\<rparr>
     (Some \<lparr>p_filepath = [''logs'', ''a.log''], p_bytes_sent = 4, p_timestamp = 0\<rparr>)
   = ((True, Upload_successful),
      \<lparr>now = 60500, rx = [],
       tx = [Line ''AT+FTPCID=1'', Line ''AT+FTPSERV="ftp.example.com"'', Line ''AT+FTPPORT=21'',
             Line ''AT+FTPMODE=1'', Line ''AT+FTPUN="user"'', Line ''AT+FTPPW="secret"'',
             Line ''AT+FTPPUTNAME="a.log"'', Line ''AT+FTPPUTPATH="/uploads"'',
             Line ''AT+FTPTYPE="I"'', Line ''AT+FTPPUTOPT="APPE"'', Line ''AT+FTPPUT=1'',
             Line ''AT+FTPPUT=2,4'', Raw ''o wo'', Line ''AT+FTPPUT=2,3'', Raw ''rld'',
             Line ''AT+FTPPUT=2,0'']\<rparr>,
      None)
   \<and> working_chunk_size 512000 ''+FTPPUT: 1,1,4'' = 4\<close>
  using C3_resume [of 512000
     "\<lparr>server = ''ftp.example.com'', port = 21, username = ''user'', password = ''secret'',
      remote_path = ''/uploads''\<rparr>"
     "[''logs'', ''a.log'']" "''hello world''" 3 5000
     "\<lparr>now = 60000, rx = [''OK'', ''OK'', ''OK'', ''OK'', ''OK'', ''OK'', ''OK'', ''OK'', ''OK'', ''OK'',
                     ''+FTPPUT: 1,1,4'', ''+FTPPUT: 2,4'', ''OK'', ''+FTPPUT: 2,3'', ''OK'',
                     ''OK'', ''+FTPPUT: 1,0''], tx = []\<rparr>"
     "Some \<lparr>p_filepath = [''logs'', ''a.log''], p_bytes_sent = 4, p_timestamp = 0\<rparr>"
     "(True, Upload_successful)"
     "fst (snd (upload_ftp 512000
     \<lparr>server = ''ftp.example.com'', port = 21, username = ''user'', password = ''secret'',
      remote_path = ''/uploads''\<rparr>
     [''logs'', ''a.log''] (Some ''hello world'') 3 5000
     \<lparr>now = 60000, rx = [''OK'', ''OK'', ''OK'', ''OK'', ''OK'', ''OK'', ''OK'', ''OK'', ''OK'', ''OK'',
                     ''+FTPPUT: 1,1,4'', ''+FTPPUT: 2,4'', ''OK'', ''+FTPPUT: 2,3'', ''OK'',
                     ''OK'', ''+FTPPUT: 1,0''], tx = []\<rparr>
     (Some \<lparr>p_filepath = [''logs'', ''a.log''], p_bytes_sent = 4, p_timestamp = 0\<rparr>)))"
     None]
  by (simp add: eval_upload eval_io cong: eval_cong)





subsection \<open>The monitor loop\<close>

lemma monitor_poll_waiting:
  assumes "host_was_connected s" and "last_write_time s = Some t0"
    and "udc_state r = ''configured''" and "current_sectors r \<le> last_seen_sectors s"
    and "quiet_clock r - t0 < q"
  shows "monitor_poll q r s = (False, s)"
  using assms by (simp add: monitor_poll_def)

lemma monitor_poll_quiet:
  assumes "host_was_connected s" and "last_write_time s = Some t0"
    and "udc_state r = ''configured''" and "current_sectors r \<le> last_seen_sectors s"
    and "q \<le> quiet_clock r - t0"
  shows "fst (monitor_poll q r s)"
  using assms by (simp add: monitor_poll_def)

lemma monitor_run_waiting:
  assumes "host_was_connected s" and "last_write_time s = Some t0"
    and "\<forall>r\<in>set rs. udc_state r = ''configured'' \<and> current_sectors r \<le> last_seen_sectors s
            \<and> quiet_clock r - t0 < q"
  shows "monitor_run q rs s = (replicate (length rs) False, s)"
  using assms
proof (induction rs)
  case Nil
  then show ?case by simp
next
  case (Cons r rs)
  then have "monitor_poll q r s = (False, s)"
    by (intro monitor_poll_waiting) auto
  with Cons show ?case by simp
qed

lemma monitor_run_append:
  "monitor_run q (rs @ rs') s =
     (let (hs, s') = monitor_run q rs s; (hs', s'') = monitor_run q rs' s' in (hs @ hs', s''))"
  by (induction rs arbitrary: s) (auto split: prod.splits)

text \<open>
  Claim C5.  In the monitor loop:
  (1) while the host stays connected, an iteration harvests exactly when a write is pending
  (one recorded earlier in the session, or one seen in this very iteration) and the quiet
  window has elapsed since the last recorded write;
  (2) hence, after a write recorded at \<open>t0\<close>, a run of polls without further writes harvests
  at the first poll whose clock has reached \<open>t0 + quiet_window\<close> and at none before it;
  (3) a poll that finds the host gone while a write is pending harvests at once, however
  little time has passed;
  (4) a poll that finds the host gone with no write in the session does not harvest, and
  the session variables are reset.
\<close>

theorem C5_harvest_trigger:
  "(udc_state r = ''configured'' \<longrightarrow>
      fst (monitor_poll q r s) =
        (let seen = (if host_was_connected s then last_seen_sectors s else current_sectors r);
             lw = (if current_sectors r > seen then Some (write_clock r) else last_write_time s)
         in lw \<noteq> None \<and> q \<le> quiet_clock r - the lw))
   \<and> (host_was_connected s \<and> last_write_time s = Some t0
        \<and> (\<forall>x\<in>set (rs @ [r]). udc_state x = ''configured''
                \<and> current_sectors x \<le> last_seen_sectors s)
        \<and> (\<forall>x\<in>set rs. quiet_clock x - t0 < q) \<and> q \<le> quiet_clock r - t0
      \<longrightarrow> fst (monitor_run q (rs @ [r]) s) = replicate (length rs) False @ [True])
   \<and> (udc_state r \<noteq> ''configured'' \<and> host_was_connected s \<and> last_write_time s = Some t0
      \<longrightarrow> fst (monitor_poll q r s))
   \<and> (udc_state r \<noteq> ''configured'' \<and> last_write_time s = None
      \<longrightarrow> \<not> fst (monitor_poll q r s)
          \<and> last_write_time (snd (monitor_poll q r s)) = None
          \<and> \<not> host_was_connected (snd (monitor_poll q r s)))"
proof (intro conjI impI)
  assume "udc_state r = ''configured''"
  then show "fst (monitor_poll q r s) =
        (let seen = (if host_was_connected s then last_seen_sectors s else current_sectors r);
             lw = (if current_sectors r > seen then Some (write_clock r) else last_write_time s)
         in lw \<noteq> None \<and> q \<le> quiet_clock r - the lw)"
    by (auto simp: monitor_poll_def Let_def split: option.splits)
next
  assume a: "host_was_connected s \<and> last_write_time s = Some t0
        \<and> (\<forall>x\<in>set (rs @ [r]). udc_state x = ''configured''
                \<and> current_sectors x \<le> last_seen_sectors s)
        \<and> (\<forall>x\<in>set rs. quiet_clock x - t0 < q) \<and> q \<le> quiet_clock r - t0"
  then have w: "monitor_run q rs s = (replicate (length rs) False, s)"
    by (intro monitor_run_waiting) auto
  from a have "fst (monitor_poll q r s)"
    by (intro monitor_poll_quiet) auto
  with w show "fst (monitor_run q (rs @ [r]) s) = replicate (length rs) False @ [True]"
    by (auto simp: monitor_run_append split: prod.splits)
next
  assume "udc_state r \<noteq> ''configured'' \<and> host_was_connected s \<and> last_write_time s = Some t0"
  then show "fst (monitor_poll q r s)"
    by (simp add: monitor_poll_def)
next
  assume a: "udc_state r \<noteq> ''configured'' \<and> last_write_time s = None"
  then show "\<not> fst (monitor_poll q r s)" by (simp add: monitor_poll_def)
  from a show "last_write_time (snd (monitor_poll q r s)) = None" by (simp add: monitor_poll_def)
  from a show "\<not> host_was_connected (snd (monitor_poll q r s))" by (simp add: monitor_poll_def)
qed

text \<open>
  The theorem at concrete inputs: a session with a write recorded at time 0 and a quiet
  window of 30 s, polled at 10 s, 20 s and 30 s; a disconnect seen 1 s after the write; and a
  disconnect in a session without writes.
\<close>

theorem C5_harvest_trigger_witness:
  "fst (monitor_run 30000
         [\<lparr>udc_state = ''configured'', current_sectors = 108, write_clock = 10000,
            quiet_clock = 10000, sectors_after_harvest = 108\<rparr>,
          \<lparr>udc_state = ''configured'', current_sectors = 108, write_clock = 20000,
            quiet_clock = 20000, sectors_after_harvest = 108\<rparr>,
          \<lparr>udc_state = ''configured'', current_sectors = 108, write_clock = 30000,
            quiet_clock = 30000, sectors_after_harvest = 108\<rparr>]
         \<lparr>baseline_sectors = 100, last_seen_sectors = 108, last_write_time = Some 0,
          host_was_connected = True\<rparr>) = [False, False, True]
   \<and> fst (monitor_poll 30000
         \<lparr>udc_state = ''configured'', current_sectors = 108, write_clock = 30000,
            quiet_clock = 30000, sectors_after_harvest = 108\<rparr>
         \<lparr>baseline_sectors = 100, last_seen_sectors = 108, last_write_time = Some 0,
          host_was_connected = True\<rparr>)
   \<and> fst (monitor_poll 30000
         \<lparr>udc_state = ''not attached'', current_sectors = 108, write_clock = 1000,
            quiet_clock = 1000, sectors_after_harvest = 108\<rparr>
         \<lparr>baseline_sectors = 100, last_seen_sectors = 108, last_write_time = Some 0,
          host_was_connected = True\<rparr>)
   \<and> \<not> fst (monitor_poll 30000
         \<lparr>udc_state = ''not attached'', current_sectors = 100, write_clock = 1000,
            quiet_clock = 1000, sectors_after_harvest = 100\<rparr>
         \<lparr>baseline_sectors = 100, last_seen_sectors = 100, last_write_time = None,
          host_was_connected = True\<rparr>)"
  using
    C5_harvest_trigger [of
      "\<lparr>udc_state = ''configured'', current_sectors = 108, write_clock = 30000,
            quiet_clock = 30000, sectors_after_harvest = 108\<rparr>"
      30000
      "\<lparr>baseline_sectors = 100, last_seen_sectors = 108, last_write_time = Some 0,
          host_was_connected = True\<rparr>"
      0
      "[\<lparr>udc_state = ''configured'', current_sectors = 108, write_clock = 10000,
            quiet_clock = 10000, sectors_after_harvest = 108\<rparr>,
          \<lparr>udc_state = ''configured'', current_sectors = 108, write_clock = 20000,
            quiet_clock = 20000, sectors_after_harvest = 108\<rparr>]"]
    C5_harvest_trigger [of
      "\<lparr>udc_state = ''not attached'', current_sectors = 108, write_clock = 1000,
            quiet_clock = 1000, sectors_after_harvest = 108\<rparr>"
      30000
      "\<lparr>baseline_sectors = 100, last_seen_sectors = 108, last_write_time = Some 0,
          host_was_connected = True\<rparr>"
      0 "[]"]
    C5_harvest_trigger [of
      "\<lparr>udc_state = ''not attached'', current_sectors = 100, write_clock = 1000,
            quiet_clock = 1000, sectors_after_harvest = 100\<rparr>"
      30000
      "\<lparr>baseline_sectors = 100, last_seen_sectors = 100, last_write_time = None,
          host_was_connected = True\<rparr>"
      0 "[]"]
  by simp

end
